theory Spec2Isabelle
  imports Complex_Main "HOL-Library.Sublist"
begin

section \<open>The voice cooking assistant of RecipeSnapTab\<close>

text \<open>
  The component \<^verbatim>\<open>RecipeSnapTab\<close> is an event-driven program: button clicks, speech
  activity events of the voice activity detector (VAD), callbacks of the voice pipeline,
  timers and the continuations of its \<^verbatim>\<open>async\<close> functions each run to their next
  \<^verbatim>\<open>await\<close> on the single JavaScript thread. The model is a state (\<open>world\<close>) and one
  state transformer for each such piece of code; the order in which the pieces run is
  given from outside as a list of events.

  A React callback reads the state variables of the render that created it, not the
  variables' current values. Every callback below therefore takes the values it closed
  over as an explicit argument (\<open>closure\<close>), beside the world it acts on. The callbacks
  that one call of \<^verbatim>\<open>startVoiceCooking\<close> brings into play (the handler of speech activity
  events, \<^verbatim>\<open>processVoiceCommand\<close>, the callbacks given to the pipeline, and \<^verbatim>\<open>nextStep\<close>
  and \<^verbatim>\<open>prevStep\<close> when a timer runs them) are those of the render whose
  \<^verbatim>\<open>startVoiceCooking\<close> was called: their dependency lists hold only variables of the
  closure, so they read the values of that one render.
\<close>

subsection \<open>Data\<close>

datatype RecipeState = Idle | Scanning | GeneratingRecipe | RecipeReady | CookingVoice

record Ingredient =
  ingredient_name :: string
  quantity :: "string option"

record Recipe =
  name :: string
  ingredients :: "Ingredient list"
  steps :: "string list"
  cookTime :: "string option"
  difficulty :: "string option"
  nutrition :: "string option"

text \<open>A \<^verbatim>\<open>Float32Array\<close> of samples; only its length is ever inspected.\<close>

type_synonym sample = real

text \<open>Modelled from the spec: the SDK's speech activity events and speech segments
  (section 3, SpeechActivityEvent and Utterance).\<close>

datatype SpeechActivity = Started | Ended

record SpeechSegment =
  samples :: "sample list"

text \<open>What an awaited promise of the SDK or the host settles to.\<close>

datatype 'a promise = Resolves 'a | Rejects string

record SynthResult =
  audio :: "sample list"
  sampleRate :: nat

record TurnResult =
  transcription :: string
  response :: string

record TurnOptions =
  maxTokens :: nat
  temperature :: real
  systemPrompt :: string

text \<open>The two callbacks that \<^verbatim>\<open>onResponseComplete\<close> hands to \<^verbatim>\<open>setTimeout\<close>.\<close>

datatype nav = NextStep | PrevStep

text \<open>The values of one render that the callbacks created in it read:
  \<^verbatim>\<open>recipe\<close>, \<^verbatim>\<open>currentStep\<close>, \<^verbatim>\<open>state\<close> and \<^verbatim>\<open>voiceTranscript\<close>.\<close>

record closure =
  c_recipe :: "Recipe option"
  c_currentStep :: int
  c_state :: RecipeState
  c_voiceTranscript :: string

subsection \<open>Strings\<close>

text \<open>
  Strings are byte strings here, and \<^verbatim>\<open>toLowerCase\<close> is modelled on ASCII letters;
  the phrases the component looks for are ASCII.
\<close>

definition lower_char :: "char \<Rightarrow> char" where
  "lower_char c =
     (let n = (of_char c :: nat) in if 65 \<le> n \<and> n \<le> 90 then char_of (n + 32) else c)"

definition toLowerCase :: "string \<Rightarrow> string" where
  "toLowerCase s = map lower_char s"

text \<open>\<^verbatim>\<open>s.includes(sub)\<close>: \<open>sub\<close> occurs in \<open>s\<close> as a contiguous substring.\<close>

fun str_includes :: "string \<Rightarrow> string \<Rightarrow> bool" where
  "str_includes [] sub = (sub = [])"
| "str_includes (c # cs) sub = (prefix sub (c # cs) \<or> str_includes cs sub)"

text \<open>A number in a template literal: decimal digits, with a sign when negative.\<close>

fun show_nat :: "nat \<Rightarrow> string" where
  "show_nat n =
     (if n < 10 then [char_of (48 + n)]
      else show_nat (n div 10) @ [char_of (48 + n mod 10)])"

definition show_int :: "int \<Rightarrow> string" where
  "show_int i = (if i < 0 then CHR ''-'' # show_nat (nat (- i)) else show_nat (nat i))"

text \<open>\<^verbatim>\<open>${recipe.steps[currentStep]}\<close>: an index out of range reads \<^verbatim>\<open>undefined\<close>.\<close>

definition step_text :: "Recipe \<Rightarrow> int \<Rightarrow> string" where
  "step_text r i =
     (if 0 \<le> i \<and> i < int (length (steps r)) then steps r ! nat i else ''undefined'')"

definition stepText :: "Recipe \<Rightarrow> int \<Rightarrow> string" where
  "stepText r i = ''Step '' @ show_int (i + 1) @ '': '' @ step_text r i"

definition turnSystemPrompt :: "Recipe \<Rightarrow> int \<Rightarrow> string" where
  "turnSystemPrompt r i =
     ''You are a cooking assistant helping someone follow a recipe. They are on step ''
     @ show_int (i + 1) @ '' of '' @ show_nat (length (steps r))
     @ ''. Current step: '' @ [CHR 0x22] @ step_text r i @ [CHR 0x22]
     @ ''. Available commands: next step, repeat step, ingredient substitution, cooking tip. Respond in 1-2 sentences.''"

subsection \<open>The world\<close>

text \<open>Every call on the SDK, the host or a React state setter, in the order made.\<close>

datatype effect =
    SetState RecipeState
  | SetRecipe "Recipe option"
  | SetCurrentStep int
  | SetError "string option"
  | SetVoiceTranscript string
  | SetVoiceResponse string
  | SetAudioLevel real
  | ConsoleError string
  | Uncaught string
  | TtsSynthesize string
  | PlayerNew nat
  | PlayerPlay "sample list" nat "unit promise"
  | PlayerDispose
  | MicNew nat
  | MicStart nat "unit promise"
  | MicStop nat
  | PipelineNew
  | VadReset
  | VadSubscribe nat
  | VadUnsubscribe nat
  | VadPop
  | ProcessTurn nat "sample list" TurnOptions
  | SetTimeout nav nat

record world =
  recipe :: "Recipe option"
  state :: RecipeState
  currentStep :: int
  error :: "string option"
  voiceTranscript :: string
  voiceResponse :: string
  audioLevel :: real
  micRef :: "nat option"
  pipelineRef :: bool
  vadUnsub :: "nat option"
  capturing :: "nat list"
  subscriptions :: "(nat \<times> closure) list"
  vad_partial :: "sample list"
  vad_ready :: "SpeechSegment list"
  turns :: "(nat \<times> closure) list"
  timers :: "(nav \<times> closure) list"
  fresh :: nat
  trace :: "effect list"

text \<open>
  The first seven fields are the component's React state, the next three its refs
  (\<open>pipelineRef\<close> says whether \<^verbatim>\<open>pipelineRef.current\<close> holds a pipeline; \<open>micRef\<close> and
  \<open>vadUnsub\<close> name a microphone and a subscription). The rest is the state of the SDK
  and the host: the microphones that capture, the VAD's subscribers each with the
  closure of its handler, the VAD's buffers, the \<^verbatim>\<open>processTurn\<close> calls that have not
  returned, the pending timers, a supply of names, and the trace of effects.
\<close>

definition emit :: "effect \<Rightarrow> world \<Rightarrow> world" where
  "emit e w = w\<lparr>trace := trace w @ [e]\<rparr>"

definition setState :: "RecipeState \<Rightarrow> world \<Rightarrow> world" where
  "setState s w = emit (SetState s) (w\<lparr>state := s\<rparr>)"

definition setRecipe :: "Recipe option \<Rightarrow> world \<Rightarrow> world" where
  "setRecipe r w = emit (SetRecipe r) (w\<lparr>recipe := r\<rparr>)"

definition setCurrentStep :: "int \<Rightarrow> world \<Rightarrow> world" where
  "setCurrentStep i w = emit (SetCurrentStep i) (w\<lparr>currentStep := i\<rparr>)"

definition setError :: "string option \<Rightarrow> world \<Rightarrow> world" where
  "setError e w = emit (SetError e) (w\<lparr>error := e\<rparr>)"

definition setVoiceTranscript :: "string \<Rightarrow> world \<Rightarrow> world" where
  "setVoiceTranscript t w = emit (SetVoiceTranscript t) (w\<lparr>voiceTranscript := t\<rparr>)"

definition setVoiceResponse :: "string \<Rightarrow> world \<Rightarrow> world" where
  "setVoiceResponse t w = emit (SetVoiceResponse t) (w\<lparr>voiceResponse := t\<rparr>)"

definition setAudioLevel :: "real \<Rightarrow> world \<Rightarrow> world" where
  "setAudioLevel l w = emit (SetAudioLevel l) (w\<lparr>audioLevel := l\<rparr>)"

text \<open>Modelled from the spec: the SDK's \<^verbatim>\<open>AudioCapture\<close> (section 4.1). \<^verbatim>\<open>start\<close>
  acquires the microphone or fails; \<^verbatim>\<open>stop\<close> releases it and is safe to repeat.\<close>

definition mic_new :: "world \<Rightarrow> nat \<times> world" where
  "mic_new w = (fresh w, emit (MicNew (fresh w)) (w\<lparr>fresh := Suc (fresh w)\<rparr>))"

definition mic_start :: "nat \<Rightarrow> unit promise \<Rightarrow> world \<Rightarrow> world" where
  "mic_start m p w =
     (case p of
        Resolves _ \<Rightarrow> emit (MicStart m p) (w\<lparr>capturing := m # capturing w\<rparr>)
      | Rejects e \<Rightarrow> emit (Uncaught e) (emit (MicStart m p) w))"

definition mic_stop :: "nat \<Rightarrow> world \<Rightarrow> world" where
  "mic_stop m w = emit (MicStop m) (w\<lparr>capturing := removeAll m (capturing w)\<rparr>)"

text \<open>Modelled from the spec: the SDK's \<^verbatim>\<open>VAD\<close> (section 4.2). \<^verbatim>\<open>reset\<close> clears all
  buffered state; \<^verbatim>\<open>onSpeechActivity\<close> registers a handler and returns the function
  that removes it; \<^verbatim>\<open>popSpeechSegment\<close> hands out a finished utterance once.\<close>

definition vad_reset :: "world \<Rightarrow> world" where
  "vad_reset w = emit VadReset (w\<lparr>vad_partial := [], vad_ready := []\<rparr>)"

definition vad_subscribe :: "closure \<Rightarrow> world \<Rightarrow> nat \<times> world" where
  "vad_subscribe env w =
     (fresh w,
      emit (VadSubscribe (fresh w))
        (w\<lparr>subscriptions := subscriptions w @ [(fresh w, env)], fresh := Suc (fresh w)\<rparr>))"

definition vad_unsubscribe :: "nat \<Rightarrow> world \<Rightarrow> world" where
  "vad_unsubscribe u w =
     emit (VadUnsubscribe u) (w\<lparr>subscriptions := filter (\<lambda>s. fst s \<noteq> u) (subscriptions w)\<rparr>)"

definition popSpeechSegment :: "world \<Rightarrow> SpeechSegment option \<times> world" where
  "popSpeechSegment w =
     (case vad_ready w of
        [] \<Rightarrow> (None, emit VadPop w)
      | seg # rest \<Rightarrow> (Some seg, emit VadPop (w\<lparr>vad_ready := rest\<rparr>)))"

text \<open>\<^verbatim>\<open>ref.current?.f()\<close>: nothing happens when the ref holds \<^verbatim>\<open>null\<close>.\<close>

definition opt_call :: "'a option \<Rightarrow> ('a \<Rightarrow> world \<Rightarrow> world) \<Rightarrow> world \<Rightarrow> world" where
  "opt_call r f w = (case r of None \<Rightarrow> w | Some x \<Rightarrow> f x w)"

text \<open>Modelled from the spec: \<^verbatim>\<open>VoicePipeline.processTurn\<close> of the SDK (section 4.3) is
  a call that stays in flight until it returns or throws; meanwhile it calls the
  callbacks it was given.\<close>

definition processTurn :: "closure \<Rightarrow> sample list \<Rightarrow> TurnOptions \<Rightarrow> world \<Rightarrow> world" where
  "processTurn env audioData opts w =
     emit (ProcessTurn (fresh w) audioData opts)
       (w\<lparr>turns := turns w @ [(fresh w, env)], fresh := Suc (fresh w)\<rparr>)"

definition setTimeout :: "nav \<Rightarrow> closure \<Rightarrow> world \<Rightarrow> world" where
  "setTimeout cb env w = emit (SetTimeout cb 1000) (w\<lparr>timers := timers w @ [(cb, env)]\<rparr>)"

subsection \<open>Step navigation\<close>

definition nextStep :: "closure \<Rightarrow> world \<Rightarrow> world" where
  "nextStep env w =
     (case c_recipe env of
        None \<Rightarrow> w
      | Some r \<Rightarrow>
          if c_currentStep env < int (length (steps r)) - 1
          then setCurrentStep (c_currentStep env + 1) w else w)"

definition prevStep :: "closure \<Rightarrow> world \<Rightarrow> world" where
  "prevStep env w =
     (if c_currentStep env > 0 then setCurrentStep (c_currentStep env - 1) w else w)"

text \<open>\<^verbatim>\<open>resetRecipe\<close>, the third place that sets the step index. It also empties the two
  lists of ingredients, which are not part of the world here.\<close>

definition resetRecipe :: "world \<Rightarrow> world" where
  "resetRecipe w = setState Idle (setCurrentStep 0 (setRecipe None w))"

fun run_nav :: "nav \<Rightarrow> closure \<Rightarrow> world \<Rightarrow> world" where
  "run_nav NextStep env w = nextStep env w"
| "run_nav PrevStep env w = prevStep env w"

text \<open>The snapshot that the callbacks of the latest render hold.\<close>

definition render :: "world \<Rightarrow> closure" where
  "render w =
     \<lparr>c_recipe = recipe w, c_currentStep = currentStep w, c_state = state w,
      c_voiceTranscript = voiceTranscript w\<rparr>"

subsection \<open>Processing one voice command\<close>

text \<open>The test of \<^verbatim>\<open>onResponseComplete\<close> for navigation commands: \<open>text\<close> is the reply,
  \<open>transcript\<close> the \<^verbatim>\<open>voiceTranscript\<close> the callback closed over.\<close>

definition navigationCommand :: "string \<Rightarrow> string \<Rightarrow> nav option" where
  "navigationCommand text transcript =
     (if str_includes (toLowerCase text) ''next step''
         \<or> str_includes (toLowerCase transcript) ''next'' then Some NextStep
      else if str_includes (toLowerCase text) ''previous''
         \<or> str_includes (toLowerCase transcript) ''back'' then Some PrevStep
      else None)"

definition onTranscription :: "string \<Rightarrow> world \<Rightarrow> world" where
  "onTranscription text w = setVoiceTranscript text w"

definition onResponseToken :: "string \<Rightarrow> string \<Rightarrow> world \<Rightarrow> world" where
  "onResponseToken token accumulated w = setVoiceResponse accumulated w"

definition onResponseComplete :: "closure \<Rightarrow> string \<Rightarrow> world \<Rightarrow> world" where
  "onResponseComplete env text w =
     (let w1 = setVoiceResponse text w in
      case navigationCommand text (c_voiceTranscript env) of
        None \<Rightarrow> w1
      | Some cb \<Rightarrow> setTimeout cb env w1)"

text \<open>When the playback fails, the promise of this callback rejects and the player is
  not disposed of; the rejection is the pipeline's to handle.\<close>

definition onSynthesisComplete :: "sample list \<Rightarrow> nat \<Rightarrow> unit promise \<Rightarrow> world \<Rightarrow> world" where
  "onSynthesisComplete a rate played w =
     (let w1 = emit (PlayerNew rate) w;
          w2 = emit (PlayerPlay a rate played) w1
      in case played of
           Resolves _ \<Rightarrow> emit PlayerDispose w2
         | Rejects e \<Rightarrow> w2)"

text \<open>\<^verbatim>\<open>processVoiceCommand\<close> up to its \<^verbatim>\<open>await\<close>: the call of \<^verbatim>\<open>processTurn\<close>.\<close>

definition processVoiceCommand :: "closure \<Rightarrow> sample list \<Rightarrow> world \<Rightarrow> world" where
  "processVoiceCommand env audioData w =
     (case c_recipe env of
        None \<Rightarrow> w
      | Some r \<Rightarrow>
          if \<not> pipelineRef w then w
          else
            let w1 = opt_call (micRef w) mic_stop w;
                w2 = opt_call (vadUnsub w1) vad_unsubscribe w1
            in processTurn env audioData
                 \<lparr>maxTokens = 50, temperature = 7 / 10,
                  systemPrompt = turnSystemPrompt r (c_currentStep env)\<rparr> w2)"

text \<open>The rest of \<^verbatim>\<open>processVoiceCommand\<close>, after \<^verbatim>\<open>processTurn\<close> has returned or thrown.\<close>

definition restartListening :: "closure \<Rightarrow> unit promise \<Rightarrow> world \<Rightarrow> world" where
  "restartListening env started w =
     (if c_state env = CookingVoice then
        let (mic, w1) = mic_new w;
            w2 = w1\<lparr>micRef := Some mic\<rparr>;
            w3 = vad_reset w2
        in mic_start mic started w3
      else w)"

definition turnReturned :: "closure \<Rightarrow> TurnResult option \<Rightarrow> unit promise \<Rightarrow> world \<Rightarrow> world" where
  "turnReturned env result started w =
     (let w1 = (case result of
                  None \<Rightarrow> w
                | Some res \<Rightarrow> setVoiceResponse (response res) (setVoiceTranscript (transcription res) w))
      in restartListening env started w1)"

definition turnThrew :: "closure \<Rightarrow> string \<Rightarrow> unit promise \<Rightarrow> world \<Rightarrow> world" where
  "turnThrew env msg started w = restartListening env started (setError (Some msg) w)"

subsection \<open>Starting and stopping\<close>

text \<open>The handler that \<^verbatim>\<open>startVoiceCooking\<close> gives to \<^verbatim>\<open>VAD.onSpeechActivity\<close>.\<close>

definition onSpeechActivity :: "closure \<Rightarrow> SpeechActivity \<Rightarrow> world \<Rightarrow> world" where
  "onSpeechActivity env activity w =
     (if activity = Ended then
        let (segment, w1) = popSpeechSegment w
        in case segment of
             None \<Rightarrow> w1
           | Some seg \<Rightarrow>
               if length (samples seg) > 1600 then processVoiceCommand env (samples seg) w1
               else w1
      else w)"

text \<open>The \<^verbatim>\<open>try\<close> block that reads the current step aloud; its \<^verbatim>\<open>catch\<close> only logs.\<close>

definition readStepAloud :: "string \<Rightarrow> SynthResult promise \<Rightarrow> unit promise \<Rightarrow> world \<Rightarrow> world" where
  "readStepAloud text synthesized played w =
     (let w1 = emit (TtsSynthesize text) w
      in case synthesized of
           Rejects e \<Rightarrow> emit (ConsoleError e) w1
         | Resolves result \<Rightarrow>
             let w2 = emit (PlayerNew (sampleRate result)) w1;
                 w3 = emit (PlayerPlay (audio result) (sampleRate result) played) w2
             in (case played of
                   Rejects e \<Rightarrow> emit (ConsoleError e) w3
                 | Resolves _ \<Rightarrow> emit PlayerDispose w3))"

text \<open>What the environment answers while \<^verbatim>\<open>startVoiceCooking\<close> runs: whether one of
  the VAD, STT and TTS models is not loaded, what \<^verbatim>\<open>ensureVoiceModels\<close> resolves to,
  and how the synthesis, the playback and \<^verbatim>\<open>mic.start\<close> settle.\<close>

record start_inputs =
  anyMissing :: bool
  ensured :: bool
  synthesized :: "SynthResult promise"
  played :: "unit promise"
  started :: "unit promise"

definition startVoiceCooking :: "closure \<Rightarrow> start_inputs \<Rightarrow> world \<Rightarrow> world" where
  "startVoiceCooking env inp w =
     (case c_recipe env of
        None \<Rightarrow> w
      | Some r \<Rightarrow>
          let w1 = setError None (setVoiceResponse '''' (setVoiceTranscript '''' w))
          in if anyMissing inp \<and> \<not> ensured inp
             then setError (Some ''Failed to load voice models'') w1
             else
               let w2 = setState CookingVoice w1;
                   w3 = setVoiceResponse (stepText r (c_currentStep env)) w2;
                   w4 = readStepAloud (stepText r (c_currentStep env))
                          (synthesized inp) (played inp) w3;
                   (mic, w5) = mic_new w4;
                   w6 = w5\<lparr>micRef := Some mic\<rparr>;
                   w7 = (if \<not> pipelineRef w6 then emit PipelineNew (w6\<lparr>pipelineRef := True\<rparr>)
                         else w6);
                   w8 = vad_reset w7;
                   (unsub, w9) = vad_subscribe env w8;
                   w10 = w9\<lparr>vadUnsub := Some unsub\<rparr>
               in mic_start mic (started inp) w10)"

definition stopVoiceCooking :: "world \<Rightarrow> world" where
  "stopVoiceCooking w =
     (let w1 = opt_call (micRef w) mic_stop w;
          w2 = opt_call (vadUnsub w1) vad_unsubscribe w1;
          w3 = setState RecipeReady w2
      in setAudioLevel 0 w3)"

subsection \<open>The voice feedback on display\<close>

text \<open>The block \<^verbatim>\<open>voice-feedback\<close> of the view. It is rendered only in state
  \<^verbatim>\<open>cooking-voice\<close>, and shows the transcript and the reply that are not empty.\<close>

definition voiceFeedback :: "world \<Rightarrow> (string option \<times> string option) option" where
  "voiceFeedback w =
     (if state w = CookingVoice
      then Some (if voiceTranscript w \<noteq> [] then Some (voiceTranscript w) else None,
                 if voiceResponse w \<noteq> [] then Some (voiceResponse w) else None)
      else None)"

subsection \<open>Events\<close>

text \<open>
  One event is one piece of code that runs without interruption. \<open>ClickStart\<close> runs
  \<^verbatim>\<open>startVoiceCooking\<close> with nothing else in between its awaits. \<open>Speech chunk\<close> is
  a microphone feeding the segmenter samples that it buffers as speech, \<open>SegmentEnds\<close>
  the segmenter finishing the buffered utterance; both need a microphone that captures.
  \<open>Activity u a\<close> is the VAD calling subscriber \<open>u\<close>; the events of a turn name the
  \<^verbatim>\<open>processTurn\<close> call they belong to, and do nothing when it is not in flight.
  \<open>TimerFires\<close> runs the oldest pending timer. \<open>ClickNext\<close>, \<open>ClickPrevious\<close> and
  \<open>ClickNewRecipe\<close> are the buttons beside the recipe, which call the callbacks of the
  latest render.
\<close>

datatype event =
    ClickStart closure start_inputs
  | ClickStop
  | ClickNext
  | ClickPrevious
  | ClickNewRecipe
  | Speech "sample list"
  | SegmentEnds
  | Activity nat SpeechActivity
  | Transcribed nat string
  | ResponseToken nat string string
  | ResponseComplete nat string
  | SynthesisComplete nat "sample list" nat "unit promise"
  | TurnReturns nat "TurnResult option" "unit promise"
  | TurnThrows nat string "unit promise"
  | TimerFires

definition in_flight :: "nat \<Rightarrow> world \<Rightarrow> closure option" where
  "in_flight k w = map_of (turns w) k"

definition finish_turn :: "nat \<Rightarrow> world \<Rightarrow> world" where
  "finish_turn k w = w\<lparr>turns := filter (\<lambda>t. fst t \<noteq> k) (turns w)\<rparr>"

fun step :: "event \<Rightarrow> world \<Rightarrow> world" where
  "step (ClickStart env inp) w = startVoiceCooking env inp w"
| "step ClickStop w = stopVoiceCooking w"
| "step ClickNext w = nextStep (render w) w"
| "step ClickPrevious w = prevStep (render w) w"
| "step ClickNewRecipe w = resetRecipe w"
| "step (Speech chunk) w =
     (if capturing w = [] then w else w\<lparr>vad_partial := vad_partial w @ chunk\<rparr>)"
| "step SegmentEnds w =
     (if capturing w = [] then w
      else w\<lparr>vad_partial := [], vad_ready := vad_ready w @ [\<lparr>samples = vad_partial w\<rparr>]\<rparr>)"
| "step (Activity u a) w =
     (case map_of (subscriptions w) u of
        None \<Rightarrow> w
      | Some env \<Rightarrow> onSpeechActivity env a w)"
| "step (Transcribed k text) w =
     (case in_flight k w of None \<Rightarrow> w | Some env \<Rightarrow> onTranscription text w)"
| "step (ResponseToken k token accumulated) w =
     (case in_flight k w of None \<Rightarrow> w | Some env \<Rightarrow> onResponseToken token accumulated w)"
| "step (ResponseComplete k text) w =
     (case in_flight k w of None \<Rightarrow> w | Some env \<Rightarrow> onResponseComplete env text w)"
| "step (SynthesisComplete k a rate p) w =
     (case in_flight k w of None \<Rightarrow> w | Some env \<Rightarrow> onSynthesisComplete a rate p w)"
| "step (TurnReturns k result p) w =
     (case in_flight k w of
        None \<Rightarrow> w
      | Some env \<Rightarrow> turnReturned env result p (finish_turn k w))"
| "step (TurnThrows k msg p) w =
     (case in_flight k w of
        None \<Rightarrow> w
      | Some env \<Rightarrow> turnThrew env msg p (finish_turn k w))"
| "step TimerFires w =
     (case timers w of
        [] \<Rightarrow> w
      | (cb, env) # rest \<Rightarrow> run_nav cb env (w\<lparr>timers := rest\<rparr>))"

definition run :: "event list \<Rightarrow> world \<Rightarrow> world" where
  "run es w = fold step es w"

subsection \<open>Notions used in the properties\<close>

text \<open>A step index of the recipe \<open>r\<close>.\<close>

definition step_in_range :: "Recipe \<Rightarrow> int \<Rightarrow> bool" where
  "step_in_range r i = (0 \<le> i \<and> i \<le> int (length (steps r)) - 1)"

text \<open>Every pending timer was set by a callback that holds the recipe \<open>r\<close> and an
  index of one of its steps.\<close>

definition timers_in_range :: "Recipe \<Rightarrow> world \<Rightarrow> bool" where
  "timers_in_range r w =
     list_all (\<lambda>t. c_recipe (snd t) = Some r \<and> step_in_range r (c_currentStep (snd t)))
       (timers w)"

definition nav_inv :: "Recipe \<Rightarrow> world \<Rightarrow> bool" where
  "nav_inv r w = (recipe w = Some r \<and> step_in_range r (currentStep w) \<and> timers_in_range r w)"

text \<open>What reading a step aloud adds to the trace.\<close>

definition spoken :: "string \<Rightarrow> SynthResult promise \<Rightarrow> unit promise \<Rightarrow> effect list" where
  "spoken text s p =
     TtsSynthesize text #
     (case s of
        Rejects e \<Rightarrow> [ConsoleError e]
      | Resolves res \<Rightarrow>
          [PlayerNew (sampleRate res), PlayerPlay (audio res) (sampleRate res) p,
           (case p of Rejects e \<Rightarrow> ConsoleError e | Resolves _ \<Rightarrow> PlayerDispose)])"

text \<open>The calls that stop capture before a turn, and the options that \<^verbatim>\<open>processTurn\<close> is given.\<close>

definition released :: "world \<Rightarrow> effect list" where
  "released w =
     (case micRef w of None \<Rightarrow> [] | Some m \<Rightarrow> [MicStop m])
     @ (case vadUnsub w of None \<Rightarrow> [] | Some u \<Rightarrow> [VadUnsubscribe u])"

definition turnOptions :: "Recipe \<Rightarrow> closure \<Rightarrow> TurnOptions" where
  "turnOptions r env =
     \<lparr>maxTokens = 50, temperature = 7 / 10,
      systemPrompt = turnSystemPrompt r (c_currentStep env)\<rparr>"

text \<open>The calls that restart listening after a turn, made only when the handler holds
  the state \<^verbatim>\<open>cooking-voice\<close>.\<close>

definition restarted :: "closure \<Rightarrow> unit promise \<Rightarrow> world \<Rightarrow> effect list" where
  "restarted env p w =
     (if c_state env = CookingVoice
      then [MicNew (fresh w), VadReset, MicStart (fresh w) p]
           @ (case p of Resolves _ \<Rightarrow> [] | Rejects e \<Rightarrow> [Uncaught e])
      else [])"

text \<open>The events in which the pipeline calls back during turn \<open>k\<close>.\<close>

definition turn_callbacks :: "nat \<Rightarrow> event set" where
  "turn_callbacks k =
     range (Transcribed k) \<union> range (\<lambda>(t, a). ResponseToken k t a)
     \<union> range (ResponseComplete k) \<union> range (\<lambda>(a, r, p). SynthesisComplete k a r p)"

text \<open>How a turn ends: \<^verbatim>\<open>processTurn\<close> throws a message or returns a result; and what the
  rest of \<^verbatim>\<open>processVoiceCommand\<close> does with that before it restarts listening.\<close>

definition handled :: "(string + TurnResult option) \<Rightarrow> effect list" where
  "handled outcome =
     (case outcome of
        Inl msg \<Rightarrow> [SetError (Some msg)]
      | Inr None \<Rightarrow> []
      | Inr (Some res) \<Rightarrow>
          [SetVoiceTranscript (transcription res), SetVoiceResponse (response res)])"

definition completion :: "nat \<Rightarrow> (string + TurnResult option) \<Rightarrow> unit promise \<Rightarrow> event" where
  "completion k outcome p =
     (case outcome of Inl msg \<Rightarrow> TurnThrows k msg p | Inr res \<Rightarrow> TurnReturns k res p)"

text \<open>The timer that the final-reply callback sets for a reply.\<close>

definition scheduled :: "closure \<Rightarrow> string \<Rightarrow> (nav \<times> closure) list" where
  "scheduled env reply =
     (case navigationCommand reply (c_voiceTranscript env) of
        None \<Rightarrow> []
      | Some cb \<Rightarrow> [(cb, env)])"

text \<open>A turn in which the transcript and the reply arrive and then a stage fails, so that
  \<^verbatim>\<open>processTurn\<close> throws: the synthesis (\<open>playback = None\<close>), or the playback of the
  audio given, which the callback \<^verbatim>\<open>onSynthesisComplete\<close> attempts.\<close>

definition failing_turn ::
  "nat \<Rightarrow> string \<Rightarrow> (string \<times> string) list \<Rightarrow> string
     \<Rightarrow> (sample list \<times> nat \<times> string) option \<Rightarrow> string \<Rightarrow> unit promise \<Rightarrow> event list" where
  "failing_turn k t tokens reply playback msg p =
     [Transcribed k t] @ map (\<lambda>ta. ResponseToken k (fst ta) (snd ta)) tokens
     @ [ResponseComplete k reply]
     @ (case playback of
          None \<Rightarrow> []
        | Some (a, rate, e) \<Rightarrow> [SynthesisComplete k a rate (Rejects e)])
     @ [TurnThrows k msg p]"

definition attempted :: "(sample list \<times> nat \<times> string) option \<Rightarrow> effect list" where
  "attempted playback =
     (case playback of
        None \<Rightarrow> []
      | Some (a, rate, e) \<Rightarrow> [PlayerNew rate, PlayerPlay a rate (Rejects e)])"

text \<open>A turn that succeeds, with the stop button clicked first.\<close>

definition stopped_turn ::
  "nat \<Rightarrow> string \<Rightarrow> string \<Rightarrow> TurnResult \<Rightarrow> unit promise \<Rightarrow> event list" where
  "stopped_turn k t reply res p =
     [ClickStop, Transcribed k t, ResponseComplete k reply, TurnReturns k (Some res) p]"

text \<open>Nothing of a voice session is left: no \<^verbatim>\<open>processTurn\<close> call is in flight, no handler
  is subscribed to the VAD and no microphone captures.\<close>

definition quiet :: "world \<Rightarrow> bool" where
  "quiet w = (turns w = [] \<and> subscriptions w = [] \<and> capturing w = [])"

text \<open>A list of events in which every \<^verbatim>\<open>startVoiceCooking\<close> begins in a quiet world. (That a
  call of \<^verbatim>\<open>startVoiceCooking\<close> ends before the next one begins is part of the event
  \<open>ClickStart\<close>.)\<close>

fun disciplined :: "event list \<Rightarrow> world \<Rightarrow> bool" where
  "disciplined [] w = True"
| "disciplined (ClickStart env inp # es) w =
     (quiet w \<and> disciplined es (step (ClickStart env inp) w))"
| "disciplined (e # es) w = disciplined es (step e w)"

text \<open>The refs name every handler that is subscribed and every microphone that captures,
  at most one \<^verbatim>\<open>processTurn\<close> call is in flight, and while one is in flight no handler is
  subscribed and no microphone captures.\<close>

definition serial :: "world \<Rightarrow> bool" where
  "serial w =
     ((\<forall>s \<in> set (subscriptions w). vadUnsub w = Some (fst s))
      \<and> (\<forall>m \<in> set (capturing w). micRef w = Some m)
      \<and> length (turns w) \<le> 1
      \<and> (turns w \<noteq> [] \<longrightarrow> subscriptions w = [] \<and> capturing w = []))"

subsection \<open>A recipe, a first world and answers of the environment\<close>

definition soup :: Recipe where
  "soup =
     \<lparr>name = ''Soup'', ingredients = [],
      steps = [''Boil water'', ''Add salt'', ''Serve''],
      cookTime = None, difficulty = None, nutrition = None\<rparr>"

text \<open>The component with a recipe on display and voice cooking never started.\<close>

definition initial :: world where
  "initial =
     \<lparr>recipe = Some soup, state = RecipeReady, currentStep = 0, error = None,
      voiceTranscript = [], voiceResponse = [], audioLevel = 0, micRef = None,
      pipelineRef = False, vadUnsub = None, capturing = [], subscriptions = [],
      vad_partial = [], vad_ready = [], turns = [], timers = [], fresh = 0, trace = []\<rparr>"

text \<open>All models are loaded, and synthesis, playback and the microphone work.\<close>

definition all_ok :: start_inputs where
  "all_ok =
     \<lparr>anyMissing = False, ensured = True,
      synthesized = Resolves \<lparr>audio = [0], sampleRate = 22050\<rparr>,
      played = Resolves (), started = Resolves ()\<rparr>"

text \<open>A chunk of \<open>n\<close> samples.\<close>

definition silence :: "nat \<Rightarrow> sample list" where
  "silence n = replicate n 0"

text \<open>The same, but speech synthesis fails; and the same, but playback fails.\<close>

definition no_voice :: start_inputs where
  "no_voice = all_ok\<lparr>synthesized := Rejects ''no voice''\<rparr>"

definition no_speaker :: start_inputs where
  "no_speaker = all_ok\<lparr>played := Rejects ''no speaker''\<rparr>"

text \<open>A session that listens: started from \<open>initial\<close> by the button of that render.
  The microphone is 0, the subscription 1, and the first turn will be 2.\<close>

definition listening :: world where
  "listening = run [ClickStart (render initial) all_ok] initial"

text \<open>The listening session after an utterance of 2000 samples has ended, and then with
  the turn for it in flight: the handler has stopped microphone 0, removed subscription 1
  and called \<^verbatim>\<open>processTurn\<close>, which is turn 2.\<close>

definition heard :: world where
  "heard = run [Speech (silence 2000), SegmentEnds] listening"

definition in_turn :: world where
  "in_turn = step (Activity 1 Ended) heard"

text \<open>What the pipeline returns for "next please".\<close>

definition next_please :: TurnResult where
  "next_please = \<lparr>transcription = ''next please'', response = ''Moving to the next step.''\<rparr>"

text \<open>The turn of the listening session with the stop button clicked during it and the Next
  button clicked twice, so that the soup is at its last step when the reply of the turn
  arrives; the reply has set its timer, which has not fired yet.\<close>

definition at_last_step :: world where
  "at_last_step =
     run [ClickStop, ClickNext, ClickNext, Transcribed 2 ''next please'',
          ResponseComplete 2 ''Moving to the next step.''] in_turn"

text \<open>Two sessions, one after the other: a start, an utterance, its turn, which fails, and
  a stop; then a second start by the button of the render after the stop, a second utterance
  and its turn, which is turn 5.\<close>

definition two_sessions :: "event list" where
  "two_sessions =
     [ClickStart (render initial) all_ok, Speech (silence 2000), SegmentEnds,
      Activity 1 Ended, Transcribed 2 ''next please'',
      TurnThrows 2 ''synthesis failed'' (Resolves ()), ClickStop,
      ClickStart ((render initial)\<lparr>c_voiceTranscript := ''next please''\<rparr>) all_ok,
      Speech (silence 2000), SegmentEnds, Activity 4 Ended]"

section \<open>Properties\<close>

lemmas prims = emit_def setState_def setRecipe_def setCurrentStep_def setError_def setVoiceTranscript_def
  setVoiceResponse_def setAudioLevel_def mic_new_def mic_start_def mic_stop_def vad_reset_def
  vad_subscribe_def vad_unsubscribe_def popSpeechSegment_def opt_call_def processTurn_def
  setTimeout_def

lemmas handlers = startVoiceCooking_def stopVoiceCooking_def onSpeechActivity_def
  processVoiceCommand_def readStepAloud_def restartListening_def turnReturned_def turnThrew_def
  onTranscription_def onResponseToken_def onResponseComplete_def onSynthesisComplete_def
  nextStep_def prevStep_def in_flight_def finish_turn_def render_def run_def

lemmas examples = soup_def initial_def all_ok_def listening_def

lemma length_silence [simp]: "length (silence n) = n"
  by (simp add: silence_def)

lemma str_includes_sublist: "str_includes s sub \<longleftrightarrow> sublist sub s"
  by (induction s) (auto simp: sublist_Cons_right)

lemma next_in_next_step: "sublist ''next'' ''next step''"
  by code_simp

lemma no_next_no_next_step: "\<not> sublist ''next'' s \<Longrightarrow> \<not> sublist ''next step'' s"
  using next_in_next_step sublist_order.order_trans by blast

subsection \<open>What starting and stopping do\<close>

lemma readStepAloud_eq:
  "readStepAloud text s p w = w\<lparr>trace := trace w @ spoken text s p\<rparr>"
  by (simp add: readStepAloud_def spoken_def emit_def Let_def split: promise.splits)

lemma stopVoiceCooking_eq:
  "stopVoiceCooking w =
     w\<lparr>state := RecipeReady, audioLevel := 0,
       capturing := (case micRef w of None \<Rightarrow> capturing w | Some m \<Rightarrow> removeAll m (capturing w)),
       subscriptions := (case vadUnsub w of None \<Rightarrow> subscriptions w
                         | Some u \<Rightarrow> filter (\<lambda>s. fst s \<noteq> u) (subscriptions w)),
       trace := trace w @ (case micRef w of None \<Rightarrow> [] | Some m \<Rightarrow> [MicStop m])
                @ (case vadUnsub w of None \<Rightarrow> [] | Some u \<Rightarrow> [VadUnsubscribe u])
                @ [SetState RecipeReady, SetAudioLevel 0]\<rparr>"
  by (simp add: stopVoiceCooking_def prims Let_def split: option.splits)

lemma startVoiceCooking_trace:
  assumes "c_recipe env = Some r" and "\<not> (anyMissing inp \<and> \<not> ensured inp)"
  shows "trace (startVoiceCooking env inp w) =
       trace w @
         [SetVoiceTranscript [], SetVoiceResponse [], SetError None, SetState CookingVoice,
          SetVoiceResponse (stepText r (c_currentStep env))]
         @ spoken (stepText r (c_currentStep env)) (synthesized inp) (played inp)
         @ [MicNew (fresh w)] @ (if pipelineRef w then [] else [PipelineNew])
         @ [VadReset, VadSubscribe (Suc (fresh w)), MicStart (fresh w) (started inp)]
         @ (case started inp of Resolves _ \<Rightarrow> [] | Rejects e \<Rightarrow> [Uncaught e])"
proof (cases "pipelineRef w")
  case True
  with assms show ?thesis
    by (cases "started inp")
       (simp_all add: startVoiceCooking_def readStepAloud_eq prims Let_def)
next
  case False
  with assms show ?thesis
    by (cases "started inp")
       (simp_all add: startVoiceCooking_def readStepAloud_eq prims Let_def)
qed

lemma startVoiceCooking_fields:
  assumes "c_recipe env = Some r" and "\<not> (anyMissing inp \<and> \<not> ensured inp)"
  shows "state (startVoiceCooking env inp w) = CookingVoice
     \<and> error (startVoiceCooking env inp w) = None
     \<and> voiceResponse (startVoiceCooking env inp w) = stepText r (c_currentStep env)
     \<and> micRef (startVoiceCooking env inp w) = Some (fresh w)
     \<and> vadUnsub (startVoiceCooking env inp w) = Some (Suc (fresh w))
     \<and> pipelineRef (startVoiceCooking env inp w)
     \<and> subscriptions (startVoiceCooking env inp w) = subscriptions w @ [(Suc (fresh w), env)]
     \<and> vad_partial (startVoiceCooking env inp w) = []
     \<and> vad_ready (startVoiceCooking env inp w) = []
     \<and> capturing (startVoiceCooking env inp w) =
           (case started inp of Resolves _ \<Rightarrow> fresh w # capturing w | Rejects e \<Rightarrow> capturing w)
     \<and> turns (startVoiceCooking env inp w) = turns w
     \<and> timers (startVoiceCooking env inp w) = timers w
     \<and> currentStep (startVoiceCooking env inp w) = currentStep w"
proof (cases "pipelineRef w")
  case True
  with assms show ?thesis
    by (cases "started inp")
       (simp_all add: startVoiceCooking_def readStepAloud_eq prims Let_def)
next
  case False
  with assms show ?thesis
    by (cases "started inp")
       (simp_all add: startVoiceCooking_def readStepAloud_eq prims Let_def)
qed

lemma stepText_soup: "stepText soup 0 = ''Step 1: Boil water''"
  by code_simp

lemma listening_eq:
  "listening =
     initial\<lparr>state := CookingVoice, voiceResponse := stepText soup 0, micRef := Some 0,
       pipelineRef := True, vadUnsub := Some 1, capturing := [0],
       subscriptions := [(1, render initial)], fresh := 2,
       trace := [SetVoiceTranscript [], SetVoiceResponse [], SetError None,
         SetState CookingVoice, SetVoiceResponse (stepText soup 0),
         TtsSynthesize (stepText soup 0), PlayerNew 22050,
         PlayerPlay [0] 22050 (Resolves ()), PlayerDispose, MicNew 0,
         PipelineNew, VadReset, VadSubscribe 1, MicStart 0 (Resolves ())]\<rparr>"
  by (simp add: listening_def run_def startVoiceCooking_def readStepAloud_def prims
      initial_def all_ok_def render_def Let_def)

subsection \<open>What the handlers of a turn do\<close>

lemma processVoiceCommand_eq:
  assumes "pipelineRef w" and "c_recipe env = Some r"
  shows "processVoiceCommand env a w =
     w\<lparr>capturing := (case micRef w of None \<Rightarrow> capturing w | Some m \<Rightarrow> removeAll m (capturing w)),
       subscriptions := (case vadUnsub w of None \<Rightarrow> subscriptions w
                         | Some u \<Rightarrow> filter (\<lambda>s. fst s \<noteq> u) (subscriptions w)),
       turns := turns w @ [(fresh w, env)], fresh := Suc (fresh w),
       trace := trace w @ released w @ [ProcessTurn (fresh w) a (turnOptions r env)]\<rparr>"
  using assms
  by (cases "micRef w"; cases "vadUnsub w")
     (simp_all add: processVoiceCommand_def released_def turnOptions_def prims Let_def)

lemma restartListening_eq:
  "restartListening env p w =
     (if c_state env = CookingVoice
      then w\<lparr>micRef := Some (fresh w), fresh := Suc (fresh w), vad_partial := [],
             vad_ready := [],
             capturing := (case p of Resolves _ \<Rightarrow> fresh w # capturing w
                           | Rejects e \<Rightarrow> capturing w),
             trace := trace w @ restarted env p w\<rparr>
      else w)"
  by (cases p) (simp_all add: restartListening_def restarted_def prims Let_def)

lemma restartListening_trace:
  "trace (restartListening env p w) = trace w @ restarted env p w"
  by (simp add: restartListening_eq restarted_def)

lemma restartListening_keeps:
  "subscriptions (restartListening env p w) = subscriptions w"
  "turns (restartListening env p w) = turns w"
  "timers (restartListening env p w) = timers w"
  "currentStep (restartListening env p w) = currentStep w"
  "voiceTranscript (restartListening env p w) = voiceTranscript w"
  "voiceResponse (restartListening env p w) = voiceResponse w"
  "error (restartListening env p w) = error w"
  "state (restartListening env p w) = state w"
  by (simp_all add: restartListening_eq)

lemma callback_keeps_capture:
  assumes "e \<in> turn_callbacks k"
  shows "capturing (step e w) = capturing w \<and> subscriptions (step e w) = subscriptions w
       \<and> micRef (step e w) = micRef w"
  using assms
  by (auto simp: turn_callbacks_def onTranscription_def onResponseToken_def
      onResponseComplete_def onSynthesisComplete_def prims Let_def
      split: option.splits promise.splits)

lemma completion_trace:
  assumes "in_flight k w = Some env"
  shows "trace (step (completion k outcome p) w) =
           trace w @ handled outcome @ restarted env p w
       \<and> subscriptions (step (completion k outcome p) w) = subscriptions w
       \<and> in_flight k (step (completion k outcome p) w) = None"
proof -
  have nf: "map_of (filter (\<lambda>t. fst t \<noteq> k) (turns w)) k = None"
    by (auto simp: map_of_eq_None_iff)
  show ?thesis
  proof (cases outcome)
    case (Inl msg)
    with assms nf show ?thesis
      by (simp add: completion_def handled_def turnThrew_def restartListening_trace
          restartListening_keeps restarted_def finish_turn_def in_flight_def setError_def emit_def)
  next
    case (Inr res)
    with assms nf show ?thesis
      by (cases res)
         (simp_all add: completion_def handled_def turnReturned_def restartListening_trace
          restartListening_keeps restarted_def finish_turn_def in_flight_def
          setVoiceTranscript_def setVoiceResponse_def emit_def)
  qed
qed

lemma run_append: "run (es @ fs) w = run fs (run es w)"
  by (simp add: run_def)

lemma run_Cons: "run (e # es) w = run es (step e w)"
  by (simp add: run_def)

lemma run_Nil: "run [] w = w"
  by (simp add: run_def)

lemma run_tokens:
  assumes "in_flight k w = Some env"
  shows "run (map (\<lambda>ta. ResponseToken k (fst ta) (snd ta)) tokens) w =
           w\<lparr>voiceResponse := last (voiceResponse w # map snd tokens),
             trace := trace w @ map (\<lambda>ta. SetVoiceResponse (snd ta)) tokens\<rparr>"
  using assms
proof (induction tokens arbitrary: w)
  case Nil
  then show ?case by (simp add: run_Nil)
next
  case (Cons ta tokens)
  let ?w = "step (ResponseToken k (fst ta) (snd ta)) w"
  from Cons.prems have s: "?w = w\<lparr>voiceResponse := snd ta,
      trace := trace w @ [SetVoiceResponse (snd ta)]\<rparr>"
    by (simp add: onResponseToken_def setVoiceResponse_def emit_def)
  with Cons.prems have "in_flight k ?w = Some env"
    by (simp add: in_flight_def)
  from Cons.IH [OF this] show ?case
    unfolding list.map run_Cons s by simp
qed

lemma onResponseComplete_eq:
  "onResponseComplete env reply w =
     w\<lparr>voiceResponse := reply, timers := timers w @ scheduled env reply,
       trace := trace w @ SetVoiceResponse reply # map (\<lambda>t. SetTimeout (fst t) 1000) (scheduled env reply)\<rparr>"
  by (simp add: onResponseComplete_def scheduled_def setVoiceResponse_def setTimeout_def emit_def
      split: option.splits)

lemma run_until_failure:
  assumes "in_flight k w = Some env"
  shows "run ([Transcribed k t] @ map (\<lambda>ta. ResponseToken k (fst ta) (snd ta)) tokens
              @ [ResponseComplete k reply]
              @ (case playback of
                   None \<Rightarrow> []
                 | Some (a, rate, e) \<Rightarrow> [SynthesisComplete k a rate (Rejects e)])) w =
     w\<lparr>voiceTranscript := t, voiceResponse := reply,
       timers := timers w @ scheduled env reply,
       trace := trace w @ [SetVoiceTranscript t]
         @ map (\<lambda>ta. SetVoiceResponse (snd ta)) tokens
         @ SetVoiceResponse reply # map (\<lambda>t. SetTimeout (fst t) 1000) (scheduled env reply)
         @ attempted playback\<rparr>"
proof -
  let ?w1 = "w\<lparr>voiceTranscript := t, trace := trace w @ [SetVoiceTranscript t]\<rparr>"
  have 1: "step (Transcribed k t) w = ?w1"
    using assms by (simp add: onTranscription_def setVoiceTranscript_def emit_def)
  have f1: "in_flight k ?w1 = Some env"
    using assms by (simp add: in_flight_def)
  let ?w2 = "?w1\<lparr>voiceResponse := last (voiceResponse ?w1 # map snd tokens),
             trace := trace ?w1 @ map (\<lambda>ta. SetVoiceResponse (snd ta)) tokens\<rparr>"
  have 2: "run (map (\<lambda>ta. ResponseToken k (fst ta) (snd ta)) tokens) ?w1 = ?w2"
    by (rule run_tokens [OF f1])
  have f2: "in_flight k ?w2 = Some env"
    using assms by (simp add: in_flight_def)
  let ?w3 = "onResponseComplete env reply ?w2"
  have 3: "step (ResponseComplete k reply) ?w2 = ?w3"
    using f2 by simp
  have f3: "in_flight k ?w3 = Some env"
    using assms by (simp add: in_flight_def onResponseComplete_eq)
  have 4: "run (case playback of
                   None \<Rightarrow> []
                 | Some (a, rate, e) \<Rightarrow> [SynthesisComplete k a rate (Rejects e)]) ?w3
           = ?w3\<lparr>trace := trace ?w3 @ attempted playback\<rparr>"
    using f3
    by (cases playback)
       (auto simp: run_Nil run_Cons attempted_def onSynthesisComplete_def emit_def Let_def)
  have "run ([Transcribed k t] @ map (\<lambda>ta. ResponseToken k (fst ta) (snd ta)) tokens
              @ [ResponseComplete k reply]
              @ (case playback of
                   None \<Rightarrow> []
                 | Some (a, rate, e) \<Rightarrow> [SynthesisComplete k a rate (Rejects e)])) w
        = ?w3\<lparr>trace := trace ?w3 @ attempted playback\<rparr>"
    unfolding run_append run_Cons run_Nil 1 2 3 4 ..
  then show ?thesis
    by (simp add: onResponseComplete_eq)
qed

lemma stop_keeps_turn:
  "in_flight k (stopVoiceCooking w) = in_flight k w"
  "timers (stopVoiceCooking w) = timers w"
  "currentStep (stopVoiceCooking w) = currentStep w"
  by (simp_all add: stopVoiceCooking_eq in_flight_def)

lemma heard_eq:
  "heard = listening\<lparr>vad_ready := [\<lparr>samples = silence 2000\<rparr>]\<rparr>"
  by (simp add: heard_def run_def listening_eq initial_def)

lemma in_turn_eq:
  "in_turn = listening\<lparr>capturing := [], subscriptions := [], turns := [(2, render initial)],
      fresh := 3,
      trace := trace listening @ [VadPop, MicStop 0, VadUnsubscribe 1,
        ProcessTurn 2 (silence 2000) (turnOptions soup (render initial))]\<rparr>"
  by (simp add: in_turn_def heard_eq listening_eq onSpeechActivity_def processVoiceCommand_def
      turnOptions_def prims initial_def render_def Let_def)

lemma nav_moving: "navigationCommand ''Moving to the next step.'' [] = Some NextStep"
  by code_simp

lemma scheduled_moving:
  "c_voiceTranscript env = [] \<Longrightarrow> scheduled env ''Moving to the next step.'' = [(NextStep, env)]"
  by (simp add: scheduled_def nav_moving)

lemma startVoiceCooking_step:
  "currentStep (startVoiceCooking env inp w) = currentStep w
   \<and> prefix (trace w) (trace (startVoiceCooking env inp w))"
proof (cases "c_recipe env")
  case None
  then show ?thesis by (simp add: startVoiceCooking_def)
next
  case (Some r)
  show ?thesis
  proof (cases "anyMissing inp \<and> \<not> ensured inp")
    case True
    with Some show ?thesis
      by (simp add: startVoiceCooking_def setError_def setVoiceResponse_def
          setVoiceTranscript_def emit_def)
  next
    case False
    from startVoiceCooking_trace [OF Some False, of w] startVoiceCooking_fields [OF Some False, of w]
    show ?thesis by simp
  qed
qed

lemma processVoiceCommand_step:
  "currentStep (processVoiceCommand env a w) = currentStep w
   \<and> prefix (trace w) (trace (processVoiceCommand env a w))"
proof (cases "c_recipe env")
  case None
  then show ?thesis by (simp add: processVoiceCommand_def)
next
  case (Some r)
  show ?thesis
  proof (cases "pipelineRef w")
    case True
    from processVoiceCommand_eq [OF True Some] show ?thesis by simp
  next
    case False
    with Some show ?thesis by (simp add: processVoiceCommand_def)
  qed
qed

lemma onSpeechActivity_step:
  "currentStep (onSpeechActivity env act w) = currentStep w
   \<and> prefix (trace w) (trace (onSpeechActivity env act w))"
proof (cases "act = Ended")
  case False
  then show ?thesis by (simp add: onSpeechActivity_def)
next
  case True
  show ?thesis
  proof (cases "vad_ready w")
    case Nil
    with True show ?thesis
      by (simp add: onSpeechActivity_def popSpeechSegment_def emit_def)
  next
    case (Cons seg rest)
    let ?w1 = "emit VadPop (w\<lparr>vad_ready := rest\<rparr>)"
    have w1: "currentStep ?w1 = currentStep w" "trace ?w1 = trace w @ [VadPop]"
      by (simp_all add: emit_def)
    from processVoiceCommand_step [of env "samples seg" ?w1] w1
    have "currentStep (processVoiceCommand env (samples seg) ?w1) = currentStep w"
      and "prefix (trace w) (trace (processVoiceCommand env (samples seg) ?w1))"
      by (auto elim: prefix_order.order_trans [rotated])
    with True Cons w1 show ?thesis
      by (simp add: onSpeechActivity_def popSpeechSegment_def)
  qed
qed

lemma completion_step:
  "currentStep (turnReturned env res p w) = currentStep w
   \<and> prefix (trace w) (trace (turnReturned env res p w))"
  "currentStep (turnThrew env msg p w) = currentStep w
   \<and> prefix (trace w) (trace (turnThrew env msg p w))"
  by (cases res)
     (simp_all add: turnReturned_def turnThrew_def restartListening_keeps restartListening_trace
       setVoiceResponse_def setVoiceTranscript_def setError_def emit_def)

lemma nav_trace:
  "prefix (trace w) (trace (nextStep env w))" "prefix (trace w) (trace (prevStep env w))"
  by (simp_all add: nextStep_def prevStep_def setCurrentStep_def emit_def split: option.splits)

lemma step_trace: "prefix (trace w) (trace (step e w))"
proof (cases e)
  case (ClickStart env inp)
  then show ?thesis using startVoiceCooking_step by simp
next
  case ClickStop
  then show ?thesis by (simp add: stopVoiceCooking_eq)
next
  case (Activity u act)
  then show ?thesis using onSpeechActivity_step by (simp split: option.splits)
next
  case (TurnReturns k res p)
  then show ?thesis
    using completion_step(1) [of _ res p "finish_turn k w"]
    by (simp add: finish_turn_def split: option.splits)
next
  case (TurnThrows k msg p)
  then show ?thesis
    using completion_step(2) [of _ msg p "finish_turn k w"]
    by (simp add: finish_turn_def split: option.splits)
next
  case TimerFires
  show ?thesis
  proof (cases "timers w")
    case Nil
    with TimerFires show ?thesis by simp
  next
    case (Cons t rest)
    obtain cb env where "t = (cb, env)" by (cases t)
    with TimerFires Cons show ?thesis
      using nav_trace [of "w\<lparr>timers := rest\<rparr>" env] by (cases cb) simp_all
  qed
qed (simp_all add: nav_trace onTranscription_def onResponseToken_def onResponseComplete_eq
      onSynthesisComplete_def resetRecipe_def setState_def setRecipe_def setCurrentStep_def
      setVoiceTranscript_def setVoiceResponse_def emit_def Let_def
      split: option.splits promise.splits)

lemma step_currentStep:
  assumes "e \<notin> {ClickNext, ClickPrevious, ClickNewRecipe, TimerFires}"
  shows "currentStep (step e w) = currentStep w"
proof (cases e)
  case (ClickStart env inp)
  then show ?thesis using startVoiceCooking_step by simp
next
  case ClickStop
  then show ?thesis by (simp add: stopVoiceCooking_eq)
next
  case (Activity u act)
  then show ?thesis using onSpeechActivity_step by (simp split: option.splits)
next
  case (TurnReturns k res p)
  then show ?thesis
    using completion_step(1) [of _ res p "finish_turn k w"]
    by (simp add: finish_turn_def split: option.splits)
next
  case (TurnThrows k msg p)
  then show ?thesis
    using completion_step(2) [of _ msg p "finish_turn k w"]
    by (simp add: finish_turn_def split: option.splits)
qed (use assms in \<open>simp_all add: onTranscription_def onResponseToken_def onResponseComplete_eq
      onSynthesisComplete_def setVoiceTranscript_def setVoiceResponse_def emit_def Let_def
      split: option.splits promise.splits\<close>)

subsection \<open>The length a speech segment needs\<close>

text \<open>
  C1, as the code has it. The handler of speech activity events, registered in a session
  (a pipeline exists, the handler holds a recipe), starts a turn exactly when the event
  is \<open>Ended\<close> and the segment it pops has more than 1600 samples: then \<^verbatim>\<open>processTurn\<close>
  is called with these samples. In every other case nothing but the pop happens: no
  turn is started and no error is set.
\<close>

theorem speech_segment_threshold:
  assumes "pipelineRef w" and "c_recipe env = Some r"
  shows "(if a = Ended \<and> (\<exists>seg rest. vad_ready w = seg # rest \<and> 1600 < length (samples seg))
          then turns (onSpeechActivity env a w) = turns w @ [(fresh w, env)]
             \<and> last (trace (onSpeechActivity env a w)) =
                 ProcessTurn (fresh w) (samples (hd (vad_ready w)))
                   \<lparr>maxTokens = 50, temperature = 7 / 10,
                    systemPrompt = turnSystemPrompt r (c_currentStep env)\<rparr>
          else turns (onSpeechActivity env a w) = turns w
             \<and> error (onSpeechActivity env a w) = error w
             \<and> trace (onSpeechActivity env a w) = trace w @ (if a = Ended then [VadPop] else []))"
  using assms
  by (auto simp: onSpeechActivity_def processVoiceCommand_def prims Let_def
      split: list.splits option.splits)

text \<open>The theorem at a segment of 1601 samples, in the listening session.\<close>

theorem speech_segment_threshold_witness:
  "pipelineRef (run [Speech (silence 1601), SegmentEnds] listening)
   \<and> c_recipe (render initial) = Some soup
   \<and> turns (onSpeechActivity (render initial) Ended
              (run [Speech (silence 1601), SegmentEnds] listening))
       = [(2, render initial)]"
proof -
  have p: "pipelineRef (run [Speech (silence 1601), SegmentEnds] listening)"
    by (simp add: handlers prims examples Let_def)
  have r: "c_recipe (render initial) = Some soup"
    by (simp add: render_def initial_def)
  from speech_segment_threshold [OF p r, of Ended] show ?thesis
    by (simp add: handlers prims examples Let_def)
qed

text \<open>C1 as stated fails at a segment of exactly 1600 samples, which is 100 ms of
  speech: the handler pops it and starts no turn.\<close>

theorem speech_segment_threshold_counterexample:
  "length (silence 1600) = 1600
   \<and> vad_ready (run [Speech (silence 1600), SegmentEnds] listening)
       = [\<lparr>samples = silence 1600\<rparr>]
   \<and> turns (run [Speech (silence 1600), SegmentEnds, Activity 1 Ended] listening) = []
   \<and> vad_ready (run [Speech (silence 1600), SegmentEnds, Activity 1 Ended] listening) = []"
  by (simp add: handlers prims examples Let_def)

subsection \<open>Navigation phrases\<close>

text \<open>
  C2, as the code has it. The match is a substring match on the lower-cased texts. The
  command is Next when the reply contains "next step" or the transcript that the
  callback holds contains "next"; otherwise it is Previous when the reply contains
  "previous" or that transcript contains "back"; otherwise there is none. In particular
  there is none when neither text contains "next", "back" or "previous". The final-reply
  callback schedules the command found, and nothing when there is none.
\<close>

theorem navigation_phrases:
  "navigationCommand text transcript =
     (if sublist ''next step'' (toLowerCase text) \<or> sublist ''next'' (toLowerCase transcript)
      then Some NextStep
      else if sublist ''previous'' (toLowerCase text) \<or> sublist ''back'' (toLowerCase transcript)
      then Some PrevStep
      else None)
   \<and> (\<not> sublist ''next'' (toLowerCase text) \<and> \<not> sublist ''next'' (toLowerCase transcript)
      \<and> \<not> sublist ''back'' (toLowerCase text) \<and> \<not> sublist ''back'' (toLowerCase transcript)
      \<and> \<not> sublist ''previous'' (toLowerCase text)
      \<and> \<not> sublist ''previous'' (toLowerCase transcript)
      \<longrightarrow> navigationCommand text transcript = None)
   \<and> timers (onResponseComplete env text w) =
       timers w @ (case navigationCommand text (c_voiceTranscript env) of
                     None \<Rightarrow> [] | Some cb \<Rightarrow> [(cb, env)])"
  by (auto simp: navigationCommand_def str_includes_sublist onResponseComplete_def
      setTimeout_def setVoiceResponse_def emit_def dest: no_next_no_next_step)

text \<open>The theorem at a reply and a transcript without any of the phrases.\<close>

theorem navigation_phrases_witness:
  "\<not> sublist ''next'' (toLowerCase ''Stir for two minutes.'')
   \<and> \<not> sublist ''next'' (toLowerCase ''How long?'')
   \<and> \<not> sublist ''back'' (toLowerCase ''Stir for two minutes.'')
   \<and> \<not> sublist ''back'' (toLowerCase ''How long?'')
   \<and> \<not> sublist ''previous'' (toLowerCase ''Stir for two minutes.'')
   \<and> \<not> sublist ''previous'' (toLowerCase ''How long?'')
   \<and> navigationCommand ''Stir for two minutes.'' ''How long?'' = None"
proof -
  have "\<not> sublist ''next'' (toLowerCase ''Stir for two minutes.'')"
    and "\<not> sublist ''next'' (toLowerCase ''How long?'')"
    and "\<not> sublist ''back'' (toLowerCase ''Stir for two minutes.'')"
    and "\<not> sublist ''back'' (toLowerCase ''How long?'')"
    and "\<not> sublist ''previous'' (toLowerCase ''Stir for two minutes.'')"
    and "\<not> sublist ''previous'' (toLowerCase ''How long?'')"
    by code_simp+
  with navigation_phrases [of "''Stir for two minutes.''" "''How long?''"] show ?thesis
    by blast
qed

text \<open>C2 as stated fails twice: "previous" in the transcript gives no command, and
  "next" in the reply gives none unless it is "next step".\<close>

theorem navigation_phrases_counterexample:
  "navigationCommand ''Okay.'' ''previous step'' = None
   \<and> navigationCommand ''Next.'' [] = None"
  by code_simp

subsection \<open>Navigation stays within the recipe\<close>

lemma run_nav_inv:
  assumes "nav_inv r w" and "c_recipe env = Some r" and "step_in_range r (c_currentStep env)"
  shows "nav_inv r (run_nav cb env w)"
  using assms
  by (cases cb)
     (auto simp: nav_inv_def timers_in_range_def step_in_range_def nextStep_def prevStep_def
       setCurrentStep_def emit_def)

lemma nav_inv_step:
  assumes "nav_inv r w" and "e \<in> {ClickNext, ClickPrevious, TimerFires}"
  shows "nav_inv r (step e w)"
proof -
  consider "e = ClickNext" | "e = ClickPrevious" | "e = TimerFires"
    using assms(2) by auto
  then show ?thesis
  proof cases
    case 1
    with assms(1) show ?thesis
      using run_nav_inv [of r w "render w" NextStep]
      by (simp add: nav_inv_def render_def)
  next
    case 2
    with assms(1) show ?thesis
      using run_nav_inv [of r w "render w" PrevStep]
      by (simp add: nav_inv_def render_def)
  next
    case 3
    show ?thesis
    proof (cases "timers w")
      case Nil
      with 3 assms(1) show ?thesis by simp
    next
      case (Cons t rest)
      obtain cb env where t: "t = (cb, env)" by (cases t)
      from assms(1) Cons t have "nav_inv r (w\<lparr>timers := rest\<rparr>)"
        and "c_recipe env = Some r" and "step_in_range r (c_currentStep env)"
        by (simp_all add: nav_inv_def timers_in_range_def)
      then have "nav_inv r (run_nav cb env (w\<lparr>timers := rest\<rparr>))"
        by (rule run_nav_inv)
      with 3 Cons t show ?thesis by simp
    qed
  qed
qed

lemma nav_inv_run:
  "nav_inv r w \<Longrightarrow> set es \<subseteq> {ClickNext, ClickPrevious, TimerFires} \<Longrightarrow> nav_inv r (run es w)"
proof (induction es arbitrary: w)
  case Nil
  then show ?case by (simp add: run_def)
next
  case (Cons e es)
  from Cons.prems have "nav_inv r (step e w)"
    by (intro nav_inv_step) auto
  with Cons show ?case by (simp add: run_def)
qed

text \<open>
  With a recipe on display, the Next button at the last step and the Previous button
  at step 0 change nothing. From a step index within the recipe, any sequence of Next and
  Previous, by the buttons or by the timers that voice commands have set, leaves the index
  within \<open>[0, stepCount - 1]\<close>.
\<close>

lemma navigation_clamp:
  assumes "recipe w = Some r" and "step_in_range r (currentStep w)" and "timers_in_range r w"
    and "set es \<subseteq> {ClickNext, ClickPrevious, TimerFires}"
  shows "step ClickNext (w\<lparr>currentStep := int (length (steps r)) - 1\<rparr>)
           = w\<lparr>currentStep := int (length (steps r)) - 1\<rparr>
       \<and> step ClickPrevious (w\<lparr>currentStep := 0\<rparr>) = w\<lparr>currentStep := 0\<rparr>
       \<and> step_in_range r (currentStep (run es w))"
proof -
  from assms have "nav_inv r (run es w)"
    by (intro nav_inv_run) (simp_all add: nav_inv_def)
  with assms(1) show ?thesis
    by (simp add: nav_inv_def nextStep_def prevStep_def render_def)
qed

text \<open>At the soup of three steps: four times Next, then Previous, and a timer that a voice
  command has set at step 0.\<close>

lemma navigation_clamp_soup:
  "recipe (initial\<lparr>timers := [(NextStep, render initial)]\<rparr>) = Some soup
   \<and> step_in_range soup (currentStep (initial\<lparr>timers := [(NextStep, render initial)]\<rparr>))
   \<and> timers_in_range soup (initial\<lparr>timers := [(NextStep, render initial)]\<rparr>)
   \<and> set [ClickNext, ClickNext, ClickNext, ClickNext, ClickPrevious, TimerFires]
       \<subseteq> {ClickNext, ClickPrevious, TimerFires}
   \<and> step ClickNext (initial\<lparr>timers := [(NextStep, render initial)], currentStep := 2\<rparr>)
       = initial\<lparr>timers := [(NextStep, render initial)], currentStep := 2\<rparr>
   \<and> step_in_range soup
       (currentStep (run [ClickNext, ClickNext, ClickNext, ClickNext, ClickPrevious, TimerFires]
          (initial\<lparr>timers := [(NextStep, render initial)]\<rparr>)))
   \<and> currentStep (run [ClickNext, ClickNext, ClickNext, ClickNext, ClickPrevious, TimerFires]
          (initial\<lparr>timers := [(NextStep, render initial)]\<rparr>)) = 1"
proof -
  have a: "recipe (initial\<lparr>timers := [(NextStep, render initial)]\<rparr>) = Some soup"
    by (simp add: initial_def)
  have b: "step_in_range soup (currentStep (initial\<lparr>timers := [(NextStep, render initial)]\<rparr>))"
    by (simp add: initial_def soup_def step_in_range_def)
  have c: "timers_in_range soup (initial\<lparr>timers := [(NextStep, render initial)]\<rparr>)"
    by (simp add: initial_def soup_def step_in_range_def timers_in_range_def render_def)
  have d: "set [ClickNext, ClickNext, ClickNext, ClickNext, ClickPrevious, TimerFires]
             \<subseteq> {ClickNext, ClickPrevious, TimerFires}"
    by simp
  have e: "currentStep (run [ClickNext, ClickNext, ClickNext, ClickNext, ClickPrevious, TimerFires]
          (initial\<lparr>timers := [(NextStep, render initial)]\<rparr>)) = 1"
    by (simp add: handlers prims examples)
  from navigation_clamp [OF a b c d] a b c d e show ?thesis
    by (simp add: soup_def)
qed

text \<open>
  C4, as the code has it. \<^verbatim>\<open>nextStep\<close> compares and increments the step index that the
  callback closed over, not the index on display, and the Next of a voice command is the
  \<^verbatim>\<open>nextStep\<close> of the render whose \<^verbatim>\<open>startVoiceCooking\<close> was called, run by a timer. In
  \<open>at_last_step\<close> the soup is at its last step, index 2, and the pending timer of the voice
  command holds index 0: when it fires, Next sets the index to 1, where the Next button
  leaves it at 2.
\<close>

theorem voice_next_at_last_step:
  "recipe at_last_step = Some soup
   \<and> currentStep at_last_step = int (length (steps soup)) - 1
   \<and> timers at_last_step = [(NextStep, render initial)]
   \<and> c_currentStep (render initial) = 0
   \<and> currentStep (step TimerFires at_last_step) = 1
   \<and> trace (step TimerFires at_last_step) = trace at_last_step @ [SetCurrentStep 1]
   \<and> step ClickNext at_last_step = at_last_step"
  by (simp add: at_last_step_def run_def in_turn_eq listening_eq initial_def
      stopVoiceCooking_eq in_flight_def onTranscription_def onResponseComplete_def nav_moving
      nextStep_def render_def soup_def prims)

subsection \<open>Stopping\<close>

text \<open>
  C8. A second stop changes nothing but the trace of calls: the state it leaves is the
  state the first stop left. Every stop leaves the state \<open>RecipeReady\<close> and the audio
  level 0, raises nothing and sets no error. When capture was never started (both refs
  hold \<^verbatim>\<open>null\<close>) it only sets these two state variables; from a session it also stops the
  microphone and removes the subscription that the refs name.
\<close>

theorem stop_idempotent:
  "stopVoiceCooking (stopVoiceCooking w)
     = (stopVoiceCooking w)\<lparr>trace := trace (stopVoiceCooking (stopVoiceCooking w))\<rparr>
   \<and> state (stopVoiceCooking w) = RecipeReady
   \<and> audioLevel (stopVoiceCooking w) = 0
   \<and> error (stopVoiceCooking w) = error w
   \<and> (\<forall>e. Uncaught e \<in> set (trace (stopVoiceCooking w)) \<longrightarrow> Uncaught e \<in> set (trace w))
   \<and> (micRef w = None \<and> vadUnsub w = None \<longrightarrow>
        stopVoiceCooking w =
          w\<lparr>state := RecipeReady, audioLevel := 0,
            trace := trace w @ [SetState RecipeReady, SetAudioLevel 0]\<rparr>)
   \<and> (\<forall>m. micRef w = Some m \<longrightarrow> m \<notin> set (capturing (stopVoiceCooking w)))
   \<and> (\<forall>u. vadUnsub w = Some u \<longrightarrow> map_of (subscriptions (stopVoiceCooking w)) u = None)"
proof -
  have twice: "stopVoiceCooking (stopVoiceCooking w)
     = (stopVoiceCooking w)\<lparr>trace := trace (stopVoiceCooking (stopVoiceCooking w))\<rparr>"
    by (cases "micRef w"; cases "vadUnsub w") (simp_all add: stopVoiceCooking_eq)
  have unc: "\<forall>e. Uncaught e \<in> set (trace (stopVoiceCooking w)) \<longrightarrow> Uncaught e \<in> set (trace w)"
    by (cases "micRef w"; cases "vadUnsub w") (simp_all add: stopVoiceCooking_eq)
  have never: "micRef w = None \<and> vadUnsub w = None \<longrightarrow>
        stopVoiceCooking w =
          w\<lparr>state := RecipeReady, audioLevel := 0,
            trace := trace w @ [SetState RecipeReady, SetAudioLevel 0]\<rparr>"
    by (simp add: stopVoiceCooking_eq)
  have mic: "\<forall>m. micRef w = Some m \<longrightarrow> m \<notin> set (capturing (stopVoiceCooking w))"
    by (simp add: stopVoiceCooking_eq)
  have sub: "\<forall>u. vadUnsub w = Some u \<longrightarrow> map_of (subscriptions (stopVoiceCooking w)) u = None"
    by (auto simp: stopVoiceCooking_eq map_of_eq_None_iff)
  have rest: "state (stopVoiceCooking w) = RecipeReady" "audioLevel (stopVoiceCooking w) = 0"
    "error (stopVoiceCooking w) = error w"
    by (simp_all add: stopVoiceCooking_eq)
  from twice unc never mic sub rest show ?thesis by blast
qed

text \<open>The theorem at the world that never started and at the listening session; both
  end with no microphone capturing and no subscriber.\<close>

theorem stop_idempotent_witness:
  "micRef initial = None \<and> vadUnsub initial = None
   \<and> stopVoiceCooking initial =
       initial\<lparr>state := RecipeReady, audioLevel := 0,
         trace := trace initial @ [SetState RecipeReady, SetAudioLevel 0]\<rparr>
   \<and> micRef listening = Some 0 \<and> 0 \<notin> set (capturing (stopVoiceCooking listening))
   \<and> vadUnsub listening = Some 1
   \<and> map_of (subscriptions (stopVoiceCooking listening)) 1 = None
   \<and> stopVoiceCooking (stopVoiceCooking listening)
       = (stopVoiceCooking listening)
           \<lparr>trace := trace (stopVoiceCooking (stopVoiceCooking listening))\<rparr>
   \<and> state (stopVoiceCooking initial) = state (stopVoiceCooking listening)
   \<and> capturing (stopVoiceCooking initial) = capturing (stopVoiceCooking listening)
   \<and> subscriptions (stopVoiceCooking initial) = subscriptions (stopVoiceCooking listening)"
proof -
  have a: "micRef initial = None \<and> vadUnsub initial = None"
    by (simp add: initial_def)
  have b: "micRef listening = Some 0" "vadUnsub listening = Some 1"
    by (simp_all add: listening_eq)
  have c: "capturing (stopVoiceCooking initial) = capturing (stopVoiceCooking listening)"
    "subscriptions (stopVoiceCooking initial) = subscriptions (stopVoiceCooking listening)"
    by (simp_all add: stopVoiceCooking_eq listening_eq initial_def)
  from stop_idempotent [of initial] stop_idempotent [of listening] a b c show ?thesis
    by simp
qed

text \<open>
  C9, as the code has it. A stop stops the microphone and removes the subscription that
  the refs name, and leaves the segmenter's buffers as they are. The buffers are cleared
  by \<^verbatim>\<open>VAD.reset()\<close> when listening next begins: in \<^verbatim>\<open>startVoiceCooking\<close>, before it
  subscribes, and when listening restarts after a turn.
\<close>

theorem stop_keeps_buffer:
  "vad_partial (stopVoiceCooking w) = vad_partial w
   \<and> vad_ready (stopVoiceCooking w) = vad_ready w
   \<and> (\<forall>m. micRef w = Some m \<longrightarrow> m \<notin> set (capturing (stopVoiceCooking w)))
   \<and> (\<forall>u. vadUnsub w = Some u \<longrightarrow> map_of (subscriptions (stopVoiceCooking w)) u = None)
   \<and> (c_recipe env = Some r \<and> \<not> (anyMissing inp \<and> \<not> ensured inp) \<longrightarrow>
        vad_partial (startVoiceCooking env inp w) = []
        \<and> vad_ready (startVoiceCooking env inp w) = []
        \<and> (\<exists>before after. trace (startVoiceCooking env inp w) =
              trace w @ before @ [VadReset, VadSubscribe (Suc (fresh w))] @ after))
   \<and> (c_state env = CookingVoice \<longrightarrow>
        vad_partial (restartListening env p w) = [] \<and> vad_ready (restartListening env p w) = [])"
proof -
  have stop: "vad_partial (stopVoiceCooking w) = vad_partial w"
    "vad_ready (stopVoiceCooking w) = vad_ready w"
    "\<forall>m. micRef w = Some m \<longrightarrow> m \<notin> set (capturing (stopVoiceCooking w))"
    by (simp_all add: stopVoiceCooking_eq)
  have sub: "\<forall>u. vadUnsub w = Some u \<longrightarrow> map_of (subscriptions (stopVoiceCooking w)) u = None"
    by (auto simp: stopVoiceCooking_eq map_of_eq_None_iff)
  have start: "vad_partial (startVoiceCooking env inp w) = []
        \<and> vad_ready (startVoiceCooking env inp w) = []
        \<and> (\<exists>before after. trace (startVoiceCooking env inp w) =
              trace w @ before @ [VadReset, VadSubscribe (Suc (fresh w))] @ after)"
    if h: "c_recipe env = Some r" "\<not> (anyMissing inp \<and> \<not> ensured inp)"
  proof -
    let ?before = "[SetVoiceTranscript [], SetVoiceResponse [], SetError None,
          SetState CookingVoice, SetVoiceResponse (stepText r (c_currentStep env))]
         @ spoken (stepText r (c_currentStep env)) (synthesized inp) (played inp)
         @ [MicNew (fresh w)] @ (if pipelineRef w then [] else [PipelineNew])"
    let ?after = "[MicStart (fresh w) (started inp)]
         @ (case started inp of Resolves _ \<Rightarrow> [] | Rejects e \<Rightarrow> [Uncaught e])"
    have "trace (startVoiceCooking env inp w) =
            trace w @ ?before @ [VadReset, VadSubscribe (Suc (fresh w))] @ ?after"
      by (simp add: startVoiceCooking_trace [OF h])
    then have "\<exists>before after. trace (startVoiceCooking env inp w) =
              trace w @ before @ [VadReset, VadSubscribe (Suc (fresh w))] @ after"
      by blast
    with startVoiceCooking_fields [OF h, of w] show ?thesis by simp
  qed
  have restart: "vad_partial (restartListening env p w) = []
      \<and> vad_ready (restartListening env p w) = []"
    if "c_state env = CookingVoice"
    using that by (cases p) (simp_all add: restartListening_def prims Let_def)
  from stop sub start restart show ?thesis by blast
qed

text \<open>The theorem in a session stopped in the middle of an utterance, then started again.\<close>

theorem stop_keeps_buffer_witness:
  "micRef (run [Speech (silence 800)] listening) = Some 0
   \<and> 0 \<notin> set (capturing (stopVoiceCooking (run [Speech (silence 800)] listening)))
   \<and> vadUnsub (run [Speech (silence 800)] listening) = Some 1
   \<and> map_of (subscriptions (stopVoiceCooking (run [Speech (silence 800)] listening))) 1 = None
   \<and> vad_partial (stopVoiceCooking (run [Speech (silence 800)] listening)) = silence 800
   \<and> c_recipe (render initial) = Some soup
   \<and> \<not> (anyMissing all_ok \<and> \<not> ensured all_ok)
   \<and> vad_partial (startVoiceCooking (render initial) all_ok
         (stopVoiceCooking (run [Speech (silence 800)] listening))) = []
   \<and> c_state (render listening) = CookingVoice
   \<and> vad_partial (restartListening (render listening) (Resolves ())
         (stopVoiceCooking (run [Speech (silence 800)] listening))) = []"
proof -
  let ?w = "run [Speech (silence 800)] listening"
  have a: "micRef ?w = Some 0" "vadUnsub ?w = Some 1" "vad_partial ?w = silence 800"
    by (simp_all add: run_def listening_eq initial_def)
  have b: "c_recipe (render initial) = Some soup" "\<not> (anyMissing all_ok \<and> \<not> ensured all_ok)"
    "c_state (render listening) = CookingVoice"
    by (simp_all add: render_def initial_def all_ok_def listening_eq)
  from stop_keeps_buffer [of ?w "render initial" soup all_ok "Resolves ()"]
    stop_keeps_buffer [of "stopVoiceCooking ?w" "render initial" soup all_ok "Resolves ()"]
    stop_keeps_buffer [of "stopVoiceCooking ?w" "render listening" soup all_ok "Resolves ()"]
    a b show ?thesis
    by simp
qed

text \<open>C9 as stated fails when the user stops in the middle of an utterance: the 800
  samples that the segmenter has buffered are still there after the stop.\<close>

theorem stop_keeps_buffer_counterexample:
  "vad_partial (run [Speech (silence 800)] listening) = silence 800
   \<and> vad_partial (run [Speech (silence 800), ClickStop] listening) = silence 800
   \<and> length (silence 800) = 800"
  by (simp add: run_def stopVoiceCooking_eq listening_eq initial_def)

subsection \<open>Starting\<close>

text \<open>
  C10. With a recipe and the voice models at hand, \<^verbatim>\<open>startVoiceCooking\<close> makes these calls
  in this order: it shows the text "Step K+1: <step text>", has it synthesized and played
  (\<open>spoken\<close>), and only then creates the microphone, resets the segmenter, subscribes and
  starts the microphone. A failure of the synthesis or of the playback is logged on the
  console and nothing else: no error is set, and the calls that follow are the same.
\<close>

theorem start_reads_step_aloud:
  assumes "c_recipe env = Some r" and "\<not> (anyMissing inp \<and> \<not> ensured inp)"
  shows "trace (startVoiceCooking env inp w) =
       trace w @
         [SetVoiceTranscript [], SetVoiceResponse [], SetError None, SetState CookingVoice,
          SetVoiceResponse (stepText r (c_currentStep env))]
         @ spoken (stepText r (c_currentStep env)) (synthesized inp) (played inp)
         @ [MicNew (fresh w)] @ (if pipelineRef w then [] else [PipelineNew])
         @ [VadReset, VadSubscribe (Suc (fresh w)), MicStart (fresh w) (started inp)]
         @ (case started inp of Resolves _ \<Rightarrow> [] | Rejects e \<Rightarrow> [Uncaught e])
     \<and> stepText r (c_currentStep env) =
         ''Step '' @ show_int (c_currentStep env + 1) @ '': '' @ step_text r (c_currentStep env)
     \<and> error (startVoiceCooking env inp w) = None
     \<and> state (startVoiceCooking env inp w) = CookingVoice
     \<and> micRef (startVoiceCooking env inp w) = Some (fresh w)
     \<and> subscriptions (startVoiceCooking env inp w) = subscriptions w @ [(Suc (fresh w), env)]
     \<and> capturing (startVoiceCooking env inp w) =
         (case started inp of Resolves _ \<Rightarrow> fresh w # capturing w | Rejects e \<Rightarrow> capturing w)"
  using startVoiceCooking_trace [OF assms, of w] startVoiceCooking_fields [OF assms, of w]
  by (simp add: stepText_def)

text \<open>The theorem at step 0 of the soup, once with the synthesis failing and once with
  the playback failing.\<close>

theorem start_reads_step_aloud_witness:
  "c_recipe (render initial) = Some soup
   \<and> \<not> (anyMissing no_voice \<and> \<not> ensured no_voice)
   \<and> \<not> (anyMissing no_speaker \<and> \<not> ensured no_speaker)
   \<and> trace (startVoiceCooking (render initial) no_voice initial) =
       [SetVoiceTranscript [], SetVoiceResponse [], SetError None, SetState CookingVoice,
        SetVoiceResponse ''Step 1: Boil water'', TtsSynthesize ''Step 1: Boil water'',
        ConsoleError ''no voice'', MicNew 0, PipelineNew, VadReset, VadSubscribe 1,
        MicStart 0 (Resolves ())]
   \<and> trace (startVoiceCooking (render initial) no_speaker initial) =
       [SetVoiceTranscript [], SetVoiceResponse [], SetError None, SetState CookingVoice,
        SetVoiceResponse ''Step 1: Boil water'', TtsSynthesize ''Step 1: Boil water'',
        PlayerNew 22050, PlayerPlay [0] 22050 (Rejects ''no speaker''),
        ConsoleError ''no speaker'', MicNew 0, PipelineNew, VadReset, VadSubscribe 1,
        MicStart 0 (Resolves ())]
   \<and> error (startVoiceCooking (render initial) no_voice initial) = None
   \<and> capturing (startVoiceCooking (render initial) no_voice initial) = [0]
   \<and> capturing (startVoiceCooking (render initial) no_speaker initial) = [0]"
proof -
  have a: "c_recipe (render initial) = Some soup"
    by (simp add: render_def initial_def)
  have b: "\<not> (anyMissing no_voice \<and> \<not> ensured no_voice)"
    by (simp add: no_voice_def all_ok_def)
  have c: "\<not> (anyMissing no_speaker \<and> \<not> ensured no_speaker)"
    by (simp add: no_speaker_def all_ok_def)
  have d: "c_currentStep (render initial) = 0" "fresh initial = 0" "trace initial = []"
    "capturing initial = []" "\<not> pipelineRef initial"
    by (simp_all add: render_def initial_def)
  from start_reads_step_aloud [OF a b, of initial] start_reads_step_aloud [OF a c, of initial]
    a b c d stepText_soup
  show ?thesis
    by (simp add: spoken_def no_voice_def no_speaker_def all_ok_def)
qed

subsection \<open>One turn at a time\<close>

text \<open>The events keep \<open>serial\<close>, when every \<^verbatim>\<open>startVoiceCooking\<close> begins in a quiet
  world.\<close>

lemma serial_start:
  assumes "serial w" and "quiet w"
  shows "serial (startVoiceCooking env inp w)"
proof (cases "c_recipe env")
  case None
  with assms show ?thesis by (simp add: startVoiceCooking_def)
next
  case (Some r)
  show ?thesis
  proof (cases "anyMissing inp \<and> \<not> ensured inp")
    case True
    with Some assms show ?thesis
      by (simp add: startVoiceCooking_def serial_def setError_def setVoiceResponse_def
          setVoiceTranscript_def emit_def)
  next
    case False
    from startVoiceCooking_fields [OF Some False, of w] assms(2) show ?thesis
      by (cases "started inp") (simp_all add: serial_def quiet_def)
  qed
qed

lemma serial_stop: "serial w \<Longrightarrow> serial (stopVoiceCooking w)"
  by (cases "micRef w"; cases "vadUnsub w") (auto simp: stopVoiceCooking_eq serial_def)

lemma serial_processVoiceCommand:
  assumes "serial w" and "turns w = []"
  shows "serial (processVoiceCommand env a w)"
proof (cases "c_recipe env")
  case None
  with assms show ?thesis by (simp add: processVoiceCommand_def)
next
  case (Some r)
  show ?thesis
  proof (cases "pipelineRef w")
    case False
    with Some assms show ?thesis by (simp add: processVoiceCommand_def)
  next
    case True
    have c: "(case micRef w of None \<Rightarrow> capturing w | Some m \<Rightarrow> removeAll m (capturing w)) = []"
    proof (cases "micRef w")
      case None
      with assms(1) show ?thesis by (cases "capturing w") (auto simp: serial_def)
    next
      case (Some m)
      with assms(1) show ?thesis
        by (auto simp: serial_def filter_empty_conv removeAll_filter_not_eq)
    qed
    have s: "(case vadUnsub w of None \<Rightarrow> subscriptions w
             | Some u \<Rightarrow> filter (\<lambda>s. fst s \<noteq> u) (subscriptions w)) = []"
    proof (cases "vadUnsub w")
      case None
      with assms(1) show ?thesis by (cases "subscriptions w") (auto simp: serial_def)
    next
      case (Some u)
      with assms(1) show ?thesis
        by (auto simp: serial_def filter_empty_conv)
    qed
    show ?thesis
      using assms(2) by (simp add: processVoiceCommand_eq [OF True Some] c s serial_def)
  qed
qed

lemma serial_activity:
  assumes "serial w" and "map_of (subscriptions w) u = Some env"
  shows "serial (onSpeechActivity env act w)"
proof -
  from assms(2) have "subscriptions w \<noteq> []" by auto
  with assms(1) have t: "turns w = []" by (auto simp: serial_def)
  show ?thesis
  proof (cases "act = Ended")
    case False
    with assms show ?thesis by (simp add: onSpeechActivity_def)
  next
    case True
    show ?thesis
    proof (cases "vad_ready w")
      case Nil
      with True assms(1) show ?thesis
        by (simp add: onSpeechActivity_def popSpeechSegment_def emit_def serial_def)
    next
      case (Cons seg rest)
      let ?w1 = "emit VadPop (w\<lparr>vad_ready := rest\<rparr>)"
      from assms(1) t have "serial ?w1" "turns ?w1 = []"
        by (simp_all add: serial_def emit_def)
      then have "serial (processVoiceCommand env (samples seg) ?w1)"
        by (rule serial_processVoiceCommand)
      with True Cons \<open>serial ?w1\<close> show ?thesis
        by (simp add: onSpeechActivity_def popSpeechSegment_def)
    qed
  qed
qed

lemma serial_restart:
  assumes "serial w" and "turns w = []" and "capturing w = []"
  shows "serial (restartListening env p w)"
  using assms by (cases p) (simp_all add: restartListening_eq serial_def)

lemma serial_finish:
  assumes "serial w" and "in_flight k w = Some env"
  shows "serial (finish_turn k w) \<and> turns (finish_turn k w) = [] \<and> capturing (finish_turn k w) = []"
proof -
  from assms(2) have ne: "turns w \<noteq> []" by (auto simp: in_flight_def)
  with assms(1) obtain t where t: "turns w = [t]"
    by (cases "turns w") (auto simp: serial_def)
  with assms(2) have "fst t = k" by (cases t) (auto simp: in_flight_def split: if_splits)
  with t assms(1) ne show ?thesis
    by (simp add: finish_turn_def serial_def)
qed

lemma serial_step:
  assumes "serial w" and "\<And>env inp. e = ClickStart env inp \<Longrightarrow> quiet w"
  shows "serial (step e w)"
proof (cases e)
  case (ClickStart env inp)
  with assms show ?thesis by (simp add: serial_start)
next
  case ClickStop
  with assms show ?thesis by (simp add: serial_stop)
next
  case (Activity u act)
  with assms(1) show ?thesis by (simp add: serial_activity split: option.splits)
next
  case (TurnReturns k res p)
  show ?thesis
  proof (cases "in_flight k w")
    case None
    with TurnReturns assms(1) show ?thesis by simp
  next
    case (Some env)
    from serial_finish [OF assms(1) Some]
    have f: "serial (finish_turn k w)" "turns (finish_turn k w) = []"
      "capturing (finish_turn k w) = []" by simp_all
    let ?v = "case res of None \<Rightarrow> finish_turn k w
      | Some r \<Rightarrow> setVoiceResponse (response r) (setVoiceTranscript (transcription r) (finish_turn k w))"
    from f have "serial ?v" "turns ?v = []" "capturing ?v = []"
      by (cases res; simp add: serial_def setVoiceResponse_def setVoiceTranscript_def emit_def)+
    then have "serial (restartListening env p ?v)" by (rule serial_restart)
    with TurnReturns Some show ?thesis by (simp add: turnReturned_def)
  qed
next
  case (TurnThrows k msg p)
  show ?thesis
  proof (cases "in_flight k w")
    case None
    with TurnThrows assms(1) show ?thesis by simp
  next
    case (Some env)
    from serial_finish [OF assms(1) Some]
    have f: "serial (finish_turn k w)" "turns (finish_turn k w) = []"
      "capturing (finish_turn k w) = []" by simp_all
    let ?v = "setError (Some msg) (finish_turn k w)"
    from f have "serial ?v" "turns ?v = []" "capturing ?v = []"
      by (simp_all add: serial_def setError_def emit_def)
    then have "serial (restartListening env p ?v)" by (rule serial_restart)
    with TurnThrows Some show ?thesis by (simp add: turnThrew_def)
  qed
next
  case TimerFires
  show ?thesis
  proof (cases "timers w")
    case Nil
    with TimerFires assms(1) show ?thesis by simp
  next
    case (Cons t rest)
    obtain cb env where "t = (cb, env)" by (cases t)
    with TimerFires Cons assms(1) show ?thesis
      by (cases cb)
         (simp_all add: serial_def nextStep_def prevStep_def setCurrentStep_def emit_def
           split: option.splits)
  qed
qed (use assms(1) in \<open>simp_all add: serial_def nextStep_def prevStep_def resetRecipe_def
      onTranscription_def onResponseToken_def onResponseComplete_eq onSynthesisComplete_def
      setState_def setRecipe_def setCurrentStep_def setVoiceTranscript_def setVoiceResponse_def
      emit_def Let_def split: option.splits promise.splits\<close>)

lemma disciplined_Cons:
  "disciplined (e # es) w =
     ((\<forall>env inp. e = ClickStart env inp \<longrightarrow> quiet w) \<and> disciplined es (step e w))"
  by (cases e) simp_all

lemma serial_run:
  "serial w \<Longrightarrow> disciplined es w \<Longrightarrow> serial (run es w)"
proof (induction es arbitrary: w)
  case Nil
  then show ?case by (simp add: run_Nil)
next
  case (Cons e es)
  from Cons.prems have "serial (step e w)" and "disciplined es (step e w)"
    by (auto simp: disciplined_Cons intro: serial_step)
  with Cons.IH show ?case by (simp add: run_Cons)
qed

text \<open>The two sessions: the world in which the first one ends, and that the second start
  begins in a quiet world.\<close>

lemma first_session_over:
  "run [Transcribed 2 ''next please'', TurnThrows 2 ''synthesis failed'' (Resolves ()),
        ClickStop] in_turn
   = in_turn\<lparr>state := RecipeReady, voiceTranscript := ''next please'',
       error := Some ''synthesis failed'', turns := [],
       trace := trace in_turn @ [SetVoiceTranscript ''next please'',
         SetError (Some ''synthesis failed''), MicStop 0, VadUnsubscribe 1,
         SetState RecipeReady, SetAudioLevel 0]\<rparr>"
  by (simp add: run_def in_turn_eq listening_eq initial_def in_flight_def onTranscription_def
      turnThrew_def restartListening_def finish_turn_def stopVoiceCooking_eq render_def prims)

lemma two_sessions_disciplined: "disciplined two_sessions initial"
proof -
  have q0: "quiet initial" by (simp add: quiet_def initial_def)
  have a: "step (Activity 1 Ended) (step SegmentEnds (step (Speech (silence 2000))
             (step (ClickStart (render initial) all_ok) initial))) = in_turn"
    by (simp add: in_turn_def heard_def listening_def run_def)
  have "quiet (run [Transcribed 2 ''next please'',
      TurnThrows 2 ''synthesis failed'' (Resolves ()), ClickStop] in_turn)"
    unfolding first_session_over by (simp add: quiet_def in_turn_eq)
  then have q1: "quiet (step ClickStop (step (TurnThrows 2 ''synthesis failed'' (Resolves ()))
      (step (Transcribed 2 ''next please'') in_turn)))"
    by (simp add: run_def)
  show ?thesis
    unfolding two_sessions_def disciplined.simps a
    using q0 q1 by simp
qed

text \<open>
  C3, as the code has it. When \<^verbatim>\<open>processVoiceCommand\<close> runs in a session (a pipeline and a
  recipe), it stops the microphone that \<^verbatim>\<open>micRef\<close> names and calls the unsubscribe
  function that \<^verbatim>\<open>vadUnsub\<close> names, and only then calls \<^verbatim>\<open>processTurn\<close>. The callbacks
  of a turn leave microphones and subscriptions alone. Capture is restarted only by the
  rest of \<^verbatim>\<open>processVoiceCommand\<close>, after the result or the error has been handled, and
  then without a new subscription. The refs name the microphone and the subscription of
  the latest \<^verbatim>\<open>startVoiceCooking\<close> only. So turns are serialized under a condition: as
  long as every \<^verbatim>\<open>startVoiceCooking\<close> begins when no turn is in flight, no handler is
  subscribed and no microphone captures, at most one \<^verbatim>\<open>processTurn\<close> call is in flight at
  any time, and while it is in flight no microphone captures and no handler is subscribed.
\<close>

theorem turn_serialization:
  "(pipelineRef w \<and> c_recipe env = Some r \<longrightarrow>
      trace (processVoiceCommand env a w) =
        trace w @ released w @ [ProcessTurn (fresh w) a (turnOptions r env)]
      \<and> turns (processVoiceCommand env a w) = turns w @ [(fresh w, env)]
      \<and> (\<forall>m. micRef w = Some m \<longrightarrow> m \<notin> set (capturing (processVoiceCommand env a w)))
      \<and> (\<forall>u. vadUnsub w = Some u \<longrightarrow>
            map_of (subscriptions (processVoiceCommand env a w)) u = None))
   \<and> (\<forall>e \<in> turn_callbacks k.
        capturing (step e w) = capturing w \<and> subscriptions (step e w) = subscriptions w)
   \<and> (in_flight k w = Some env \<longrightarrow>
        trace (step (completion k outcome p) w) = trace w @ handled outcome @ restarted env p w
        \<and> subscriptions (step (completion k outcome p) w) = subscriptions w)
   \<and> (serial w \<and> disciplined es w \<longrightarrow>
        serial (run es w)
        \<and> length (turns (run es w)) \<le> 1
        \<and> (turns (run es w) \<noteq> [] \<longrightarrow>
              subscriptions (run es w) = [] \<and> capturing (run es w) = []))"
proof -
  have first: "trace (processVoiceCommand env a w) =
        trace w @ released w @ [ProcessTurn (fresh w) a (turnOptions r env)]
      \<and> turns (processVoiceCommand env a w) = turns w @ [(fresh w, env)]
      \<and> (\<forall>m. micRef w = Some m \<longrightarrow> m \<notin> set (capturing (processVoiceCommand env a w)))
      \<and> (\<forall>u. vadUnsub w = Some u \<longrightarrow>
            map_of (subscriptions (processVoiceCommand env a w)) u = None)"
    if h: "pipelineRef w" "c_recipe env = Some r"
    by (auto simp: processVoiceCommand_eq [OF h] map_of_eq_None_iff)
  have during: "\<forall>e \<in> turn_callbacks k.
        capturing (step e w) = capturing w \<and> subscriptions (step e w) = subscriptions w"
    using callback_keeps_capture by blast
  have after: "trace (step (completion k outcome p) w) =
          trace w @ handled outcome @ restarted env p w
        \<and> subscriptions (step (completion k outcome p) w) = subscriptions w"
    if "in_flight k w = Some env"
    using completion_trace [OF that] by blast
  have inv: "serial (run es w)
        \<and> length (turns (run es w)) \<le> 1
        \<and> (turns (run es w) \<noteq> [] \<longrightarrow>
              subscriptions (run es w) = [] \<and> capturing (run es w) = [])"
    if "serial w" "disciplined es w"
  proof -
    from that have "serial (run es w)" by (rule serial_run)
    then show ?thesis by (simp add: serial_def)
  qed
  from first during after inv show ?thesis by blast
qed

text \<open>The theorem at the utterance and the turn of the listening session, and at the two
  sessions, which never have two turns in flight.\<close>

theorem turn_serialization_witness:
  "pipelineRef heard \<and> c_recipe (render initial) = Some soup
   \<and> micRef heard = Some 0 \<and> vadUnsub heard = Some 1
   \<and> trace (processVoiceCommand (render initial) (silence 2000) heard) =
       trace heard @ [MicStop 0, VadUnsubscribe 1,
         ProcessTurn 2 (silence 2000) (turnOptions soup (render initial))]
   \<and> 0 \<notin> set (capturing (processVoiceCommand (render initial) (silence 2000) heard))
   \<and> map_of (subscriptions (processVoiceCommand (render initial) (silence 2000) heard)) 1 = None
   \<and> Transcribed 2 ''next please'' \<in> turn_callbacks 2
   \<and> capturing (step (Transcribed 2 ''next please'') in_turn) = capturing in_turn
   \<and> in_flight 2 in_turn = Some (render initial)
   \<and> trace (step (completion 2 (Inl ''synthesis failed'') (Resolves ())) in_turn) =
       trace in_turn @ [SetError (Some ''synthesis failed'')]
   \<and> serial initial \<and> disciplined two_sessions initial
   \<and> length (turns (run two_sessions initial)) \<le> 1"
proof -
  have a: "pipelineRef heard" "micRef heard = Some 0" "vadUnsub heard = Some 1"
    "fresh heard = 2"
    by (simp_all add: heard_eq listening_eq)
  have b: "c_recipe (render initial) = Some soup" "c_state (render initial) = RecipeReady"
    by (simp_all add: render_def initial_def)
  have c: "Transcribed 2 ''next please'' \<in> turn_callbacks 2"
    by (simp add: turn_callbacks_def)
  have d: "in_flight 2 in_turn = Some (render initial)"
    by (simp add: in_turn_eq in_flight_def)
  have e: "serial initial"
    by (simp add: serial_def initial_def)
  note f = two_sessions_disciplined
  note T1 = turn_serialization [of heard "render initial" soup "silence 2000" 2 _ _ two_sessions]
  note T2 = turn_serialization [of in_turn "render initial" soup "silence 2000" 2
      "Inl ''synthesis failed''" "Resolves ()" two_sessions]
  note T3 = turn_serialization [of initial "render initial" soup "silence 2000" 2
      "Inl ''synthesis failed''" "Resolves ()" two_sessions]
  from T1 a b have t1: "trace (processVoiceCommand (render initial) (silence 2000) heard) =
       trace heard @ [MicStop 0, VadUnsubscribe 1,
         ProcessTurn 2 (silence 2000) (turnOptions soup (render initial))]"
    "0 \<notin> set (capturing (processVoiceCommand (render initial) (silence 2000) heard))"
    "map_of (subscriptions (processVoiceCommand (render initial) (silence 2000) heard)) 1 = None"
    by (simp_all add: released_def)
  from T2 c have t2: "capturing (step (Transcribed 2 ''next please'') in_turn) = capturing in_turn"
    by blast
  from T2 d have "trace (step (completion 2 (Inl ''synthesis failed'') (Resolves ())) in_turn) =
       trace in_turn @ handled (Inl ''synthesis failed'')
         @ restarted (render initial) (Resolves ()) in_turn"
    by blast
  with b have t3: "trace (step (completion 2 (Inl ''synthesis failed'') (Resolves ())) in_turn) =
       trace in_turn @ [SetError (Some ''synthesis failed'')]"
    by (simp add: handled_def restarted_def)
  from T3 e f have t4: "length (turns (run two_sessions initial)) \<le> 1"
    by blast
  from a b c d e f t1 t2 t3 t4 show ?thesis
    by simp
qed

text \<open>C3 as stated fails without the condition. When the session is stopped and started
  again while turn 2 is in flight, the new session hears an utterance and calls
  \<^verbatim>\<open>processTurn\<close> a second time: turns 2 and 5 are in flight together. When
  \<^verbatim>\<open>startVoiceCooking\<close> is called again in the listening session, the refs name
  microphone 2 and subscription 3 only; the first handler, subscription 1, stops and
  removes those, stays subscribed itself with microphone 0 capturing, and calls
  \<^verbatim>\<open>processTurn\<close> for the next utterance as well: turns 4 and 5 are in flight together.\<close>

theorem turn_serialization_counterexample:
  "map fst (turns in_turn) = [2]
   \<and> map fst (turns (run [ClickStop, ClickStart (render (step ClickStop in_turn)) all_ok,
         Speech (silence 2000), SegmentEnds, Activity 4 Ended] in_turn)) = [2, 5]
   \<and> map fst (turns (run [ClickStart (render initial) all_ok,
         Speech (silence 2000), SegmentEnds, Activity 1 Ended,
         Speech (silence 2000), SegmentEnds, Activity 1 Ended] listening)) = [4, 5]
   \<and> capturing (run [ClickStart (render initial) all_ok,
         Speech (silence 2000), SegmentEnds, Activity 1 Ended] listening) = [0]
   \<and> map fst (subscriptions (run [ClickStart (render initial) all_ok,
         Speech (silence 2000), SegmentEnds, Activity 1 Ended] listening)) = [1]"
  by (simp add: in_turn_eq listening_eq run_def stopVoiceCooking_eq startVoiceCooking_def
      readStepAloud_eq onSpeechActivity_def processVoiceCommand_def prims initial_def
      all_ok_def render_def Let_def)

subsection \<open>A stage of the turn fails\<close>

text \<open>
  What a turn does in which the transcript and the reply arrive and then the synthesis or
  the playback fails: the transcript and the reply are on display, the navigation timer
  that the reply set is pending, the error message is set and no playback has completed.
  Listening is restarted (\<open>restarted\<close>) exactly when the state that the handler holds is
  \<^verbatim>\<open>cooking-voice\<close>.
\<close>

lemma failing_turn_run:
  assumes "in_flight k w = Some env"
  shows "voiceTranscript (run (failing_turn k t tokens reply playback msg p) w) = t
     \<and> voiceResponse (run (failing_turn k t tokens reply playback msg p) w) = reply
     \<and> timers (run (failing_turn k t tokens reply playback msg p) w)
         = timers w @ scheduled env reply
     \<and> error (run (failing_turn k t tokens reply playback msg p) w) = Some msg
     \<and> state (run (failing_turn k t tokens reply playback msg p) w) = state w
     \<and> trace (run (failing_turn k t tokens reply playback msg p) w)
         = trace w @ [SetVoiceTranscript t]
           @ map (\<lambda>ta. SetVoiceResponse (snd ta)) tokens
           @ SetVoiceResponse reply # map (\<lambda>t. SetTimeout (fst t) 1000) (scheduled env reply)
           @ attempted playback
           @ [SetError (Some msg)] @ restarted env p w
     \<and> micRef (run (failing_turn k t tokens reply playback msg p) w)
         = (if c_state env = CookingVoice then Some (fresh w) else micRef w)
     \<and> capturing (run (failing_turn k t tokens reply playback msg p) w)
         = (if c_state env = CookingVoice
            then (case p of Resolves _ \<Rightarrow> fresh w # capturing w | Rejects e \<Rightarrow> capturing w)
            else capturing w)
     \<and> in_flight k (run (failing_turn k t tokens reply playback msg p) w) = None"
proof -
  let ?w4 = "w\<lparr>voiceTranscript := t, voiceResponse := reply,
       timers := timers w @ scheduled env reply,
       trace := trace w @ [SetVoiceTranscript t]
         @ map (\<lambda>ta. SetVoiceResponse (snd ta)) tokens
         @ SetVoiceResponse reply # map (\<lambda>t. SetTimeout (fst t) 1000) (scheduled env reply)
         @ attempted playback\<rparr>"
  have nf: "map_of (filter (\<lambda>t. fst t \<noteq> k) (turns w)) k = None"
    by (auto simp: map_of_eq_None_iff)
  have f4: "in_flight k ?w4 = Some env"
    using assms(1) by (simp add: in_flight_def)
  have "run (failing_turn k t tokens reply playback msg p) w = step (TurnThrows k msg p) ?w4"
    using run_until_failure [OF assms(1), of t tokens reply playback]
    by (simp add: failing_turn_def run_append run_Cons run_Nil del: append_assoc
        flip: append_assoc)
  also have "\<dots> = restartListening env p (setError (Some msg) (finish_turn k ?w4))"
    using f4 by (simp add: turnThrew_def)
  finally have eq: "run (failing_turn k t tokens reply playback msg p) w
      = restartListening env p (setError (Some msg) (finish_turn k ?w4))" .
  show ?thesis
    unfolding eq using nf
    by (cases p)
       (simp_all add: restartListening_eq restarted_def setError_def emit_def finish_turn_def
         in_flight_def)
qed

text \<open>
  C5 asks that the orchestrator then resumes listening. The code tests
  \<^verbatim>\<open>state === 'cooking-voice'\<close> before it restarts the microphone, on the state that the
  handler closed over. In a first voice session that is the state of the render in which
  the start button was clicked, \<^verbatim>\<open>recipe-ready\<close>: no render before the click had the state
  \<^verbatim>\<open>cooking-voice\<close>. So at the turn of the listening session, with the session still in
  the state \<^verbatim>\<open>cooking-voice\<close>, the transcript and the reply are reported, the command Next
  is scheduled and the error is set, and then nothing follows: no microphone is created
  or started, and none captures. The timer then moves the step pointer from 0 to 1.
\<close>

theorem failed_synthesis_no_restart:
  "in_flight 2 in_turn = Some (render initial)
   \<and> state in_turn = CookingVoice
   \<and> voiceTranscript (run (failing_turn 2 ''next please'' [(''Moving'', ''Moving'')]
         ''Moving to the next step.'' None ''synthesis failed'' (Resolves ())) in_turn)
       = ''next please''
   \<and> voiceResponse (run (failing_turn 2 ''next please'' [(''Moving'', ''Moving'')]
         ''Moving to the next step.'' None ''synthesis failed'' (Resolves ())) in_turn)
       = ''Moving to the next step.''
   \<and> timers (run (failing_turn 2 ''next please'' [(''Moving'', ''Moving'')]
         ''Moving to the next step.'' None ''synthesis failed'' (Resolves ())) in_turn)
       = [(NextStep, render initial)]
   \<and> error (run (failing_turn 2 ''next please'' [(''Moving'', ''Moving'')]
         ''Moving to the next step.'' None ''synthesis failed'' (Resolves ())) in_turn)
       = Some ''synthesis failed''
   \<and> state (run (failing_turn 2 ''next please'' [(''Moving'', ''Moving'')]
         ''Moving to the next step.'' None ''synthesis failed'' (Resolves ())) in_turn)
       = CookingVoice
   \<and> capturing (run (failing_turn 2 ''next please'' [(''Moving'', ''Moving'')]
         ''Moving to the next step.'' None ''synthesis failed'' (Resolves ())) in_turn)
       = []
   \<and> trace (run (failing_turn 2 ''next please'' [(''Moving'', ''Moving'')]
         ''Moving to the next step.'' None ''synthesis failed'' (Resolves ())) in_turn)
       = trace in_turn @
         [SetVoiceTranscript ''next please'', SetVoiceResponse ''Moving'',
          SetVoiceResponse ''Moving to the next step.'', SetTimeout NextStep 1000,
          SetError (Some ''synthesis failed'')]
   \<and> currentStep in_turn = 0
   \<and> currentStep (step TimerFires (run (failing_turn 2 ''next please''
         [(''Moving'', ''Moving'')] ''Moving to the next step.'' None ''synthesis failed''
         (Resolves ())) in_turn))
       = 1"
proof -
  have a: "in_flight 2 in_turn = Some (render initial)"
    by (simp add: in_turn_eq in_flight_def)
  have b: "c_state (render initial) = RecipeReady" "c_voiceTranscript (render initial) = []"
    by (simp_all add: render_def initial_def)
  have c: "timers in_turn = []" "capturing in_turn = []" "state in_turn = CookingVoice"
    "currentStep in_turn = 0"
    by (simp_all add: in_turn_eq listening_eq initial_def)
  have d: "c_recipe (render initial) = Some soup" "c_currentStep (render initial) = 0"
    "length (steps soup) = 3"
    by (simp_all add: render_def initial_def soup_def)
  from failing_turn_run [OF a, of "''next please''" "[(''Moving'', ''Moving'')]"
      "''Moving to the next step.''" None "''synthesis failed''" "Resolves ()"]
    a b c d scheduled_moving [OF b(2)]
  show ?thesis
    by (simp add: attempted_def restarted_def nextStep_def setCurrentStep_def emit_def)
qed

subsection \<open>Stopping during a turn\<close>

text \<open>
  C6, as the code has it. A stop does not end a turn in flight. The callbacks of the turn
  and the rest of \<^verbatim>\<open>processVoiceCommand\<close> run as they would without the stop: the
  transcript and the reply of the result are written to the state variables
  \<^verbatim>\<open>voiceTranscript\<close> and \<^verbatim>\<open>voiceResponse\<close>, which the view, in state \<^verbatim>\<open>recipe-ready\<close>
  after the stop, does not show; and the navigation timer that the reply set stays
  pending and runs \<^verbatim>\<open>nextStep\<close> or \<^verbatim>\<open>prevStep\<close> when it fires.
\<close>

theorem stop_does_not_discard:
  assumes "in_flight k w = Some env"
  shows "in_flight k (step ClickStop w) = Some env
     \<and> voiceTranscript (run (stopped_turn k t reply res p) w) = transcription res
     \<and> voiceResponse (run (stopped_turn k t reply res p) w) = response res
     \<and> state (run (stopped_turn k t reply res p) w) = RecipeReady
     \<and> voiceFeedback (run (stopped_turn k t reply res p) w) = None
     \<and> timers (run (stopped_turn k t reply res p) w) = timers w @ scheduled env reply
     \<and> in_flight k (run (stopped_turn k t reply res p) w) = None
     \<and> (timers w = [] \<longrightarrow>
          step TimerFires (run (stopped_turn k t reply res p) w) =
            (case navigationCommand reply (c_voiceTranscript env) of
               None \<Rightarrow> run (stopped_turn k t reply res p) w
             | Some cb \<Rightarrow> run_nav cb env ((run (stopped_turn k t reply res p) w)\<lparr>timers := []\<rparr>)))"
proof -
  let ?s = "stopVoiceCooking w"
  have fs: "in_flight k ?s = Some env"
    using assms by (simp add: stop_keeps_turn)
  let ?w4 = "?s\<lparr>voiceTranscript := t, voiceResponse := reply,
       timers := timers ?s @ scheduled env reply,
       trace := trace ?s @ [SetVoiceTranscript t]
         @ SetVoiceResponse reply # map (\<lambda>t. SetTimeout (fst t) 1000) (scheduled env reply)\<rparr>"
  have nf: "map_of (filter (\<lambda>t. fst t \<noteq> k) (turns ?s)) k = None"
    by (auto simp: map_of_eq_None_iff)
  have f4: "in_flight k ?w4 = Some env"
    using fs by (simp add: in_flight_def)
  have "run [Transcribed k t, ResponseComplete k reply] ?s = ?w4"
    using run_until_failure [OF fs, of t "[]" reply None]
    by (simp add: attempted_def)
  then have "run (stopped_turn k t reply res p) w = step (TurnReturns k (Some res) p) ?w4"
    by (simp add: stopped_turn_def run_Cons run_Nil)
  also have "\<dots> = restartListening env p
       (setVoiceResponse (response res) (setVoiceTranscript (transcription res)
          (finish_turn k ?w4)))"
    using f4 by (simp add: turnReturned_def)
  finally have eq: "run (stopped_turn k t reply res p) w = restartListening env p
       (setVoiceResponse (response res) (setVoiceTranscript (transcription res)
          (finish_turn k ?w4)))" .
  have fin: "in_flight k (run (stopped_turn k t reply res p) w) = None"
    unfolding eq using nf
    by (simp add: in_flight_def restartListening_keeps setVoiceResponse_def
        setVoiceTranscript_def emit_def finish_turn_def)
  have fields: "voiceTranscript (run (stopped_turn k t reply res p) w) = transcription res"
    "voiceResponse (run (stopped_turn k t reply res p) w) = response res"
    "timers (run (stopped_turn k t reply res p) w) = timers w @ scheduled env reply"
    unfolding eq
    by (simp_all add: restartListening_keeps setVoiceResponse_def
        setVoiceTranscript_def emit_def finish_turn_def stop_keeps_turn)
  have st: "state (run (stopped_turn k t reply res p) w) = RecipeReady"
    unfolding eq
    by (simp add: restartListening_keeps setVoiceResponse_def
        setVoiceTranscript_def emit_def finish_turn_def stopVoiceCooking_eq)
  then have view: "voiceFeedback (run (stopped_turn k t reply res p) w) = None"
    by (simp add: voiceFeedback_def)
  from fields(3) have fire: "timers w = [] \<longrightarrow>
          step TimerFires (run (stopped_turn k t reply res p) w) =
            (case navigationCommand reply (c_voiceTranscript env) of
               None \<Rightarrow> run (stopped_turn k t reply res p) w
             | Some cb \<Rightarrow> run_nav cb env ((run (stopped_turn k t reply res p) w)\<lparr>timers := []\<rparr>))"
    by (simp add: scheduled_def split: option.splits)
  from fs fin fields st view fire show ?thesis by simp
qed

text \<open>The theorem at the turn of the listening session.\<close>

theorem stop_does_not_discard_witness:
  "in_flight 2 in_turn = Some (render initial)
   \<and> in_flight 2 (step ClickStop in_turn) = Some (render initial)
   \<and> voiceTranscript (run (stopped_turn 2 ''next please'' ''Moving to the next step.''
         next_please (Resolves ())) in_turn) = ''next please''
   \<and> voiceResponse (run (stopped_turn 2 ''next please'' ''Moving to the next step.''
         next_please (Resolves ())) in_turn) = ''Moving to the next step.''
   \<and> voiceFeedback (run (stopped_turn 2 ''next please'' ''Moving to the next step.''
         next_please (Resolves ())) in_turn) = None
   \<and> timers (run (stopped_turn 2 ''next please'' ''Moving to the next step.''
         next_please (Resolves ())) in_turn) = [(NextStep, render initial)]
   \<and> timers in_turn = []
   \<and> step TimerFires (run (stopped_turn 2 ''next please'' ''Moving to the next step.''
         next_please (Resolves ())) in_turn)
       = nextStep (render initial) ((run (stopped_turn 2 ''next please''
           ''Moving to the next step.'' next_please (Resolves ())) in_turn)\<lparr>timers := []\<rparr>)"
proof -
  have a: "in_flight 2 in_turn = Some (render initial)"
    by (simp add: in_turn_eq in_flight_def)
  have b: "c_voiceTranscript (render initial) = []" "timers in_turn = []"
    by (simp_all add: render_def in_turn_eq listening_eq initial_def)
  from stop_does_not_discard [OF a, of "''next please''" "''Moving to the next step.''"
      next_please "Resolves ()"] a b scheduled_moving [OF b(1)]
  show ?thesis
    by (simp add: next_please_def nav_moving)
qed

text \<open>C6 as stated fails: after the stop (the state is \<^verbatim>\<open>recipe-ready\<close>) the transcript and
  the reply of the turn are written to the state variables, and the timer moves the step
  pointer from 0 to 1.\<close>

theorem stop_does_not_discard_counterexample:
  "state (run (stopped_turn 2 ''next please'' ''Moving to the next step.'' next_please
       (Resolves ()) @ [TimerFires]) in_turn) = RecipeReady
   \<and> voiceTranscript (run (stopped_turn 2 ''next please'' ''Moving to the next step.'' next_please
       (Resolves ()) @ [TimerFires]) in_turn) = ''next please''
   \<and> voiceResponse (run (stopped_turn 2 ''next please'' ''Moving to the next step.'' next_please
       (Resolves ()) @ [TimerFires]) in_turn) = ''Moving to the next step.''
   \<and> voiceTranscript in_turn = []
   \<and> currentStep in_turn = 0
   \<and> currentStep (run (stopped_turn 2 ''next please'' ''Moving to the next step.'' next_please
       (Resolves ()) @ [TimerFires]) in_turn) = 1"
  by (simp add: stopped_turn_def run_def in_turn_eq listening_eq initial_def
      stopVoiceCooking_eq in_flight_def onTranscription_def onResponseComplete_def nav_moving
      turnReturned_def restartListening_def finish_turn_def nextStep_def next_please_def
      render_def soup_def prims)

subsection \<open>Who moves the step pointer, and when\<close>

text \<open>
  C7, as the code has it. The step pointer is written by \<^verbatim>\<open>nextStep\<close> and \<^verbatim>\<open>prevStep\<close>,
  which the buttons and the timers run, and set to 0 when the recipe is given up; no
  other event changes it. A timer neither
  waits for a turn nor ends one. The context handed to the pipeline is the system prompt,
  built when \<^verbatim>\<open>processTurn\<close> is called from the step index that the handler holds; no
  later event changes a call that was made.
\<close>

theorem step_pointer_and_context:
  "(e \<notin> {ClickNext, ClickPrevious, ClickNewRecipe, TimerFires} \<longrightarrow>
      currentStep (step e w) = currentStep w)
   \<and> turns (step TimerFires w) = turns w
   \<and> (pipelineRef w \<and> c_recipe env = Some r \<longrightarrow>
        last (trace (processVoiceCommand env a w)) = ProcessTurn (fresh w) a (turnOptions r env))
   \<and> systemPrompt (turnOptions r env) = turnSystemPrompt r (c_currentStep env)
   \<and> prefix (trace w) (trace (step e w))"
proof -
  have t: "turns (step TimerFires w) = turns w"
  proof (cases "timers w")
    case Nil
    then show ?thesis by simp
  next
    case (Cons t rest)
    obtain cb env where "t = (cb, env)" by (cases t)
    with Cons show ?thesis
      by (cases cb)
         (simp_all add: nextStep_def prevStep_def setCurrentStep_def emit_def
           split: option.splits)
  qed
  have p: "pipelineRef w \<and> c_recipe env = Some r \<longrightarrow>
        last (trace (processVoiceCommand env a w)) = ProcessTurn (fresh w) a (turnOptions r env)"
    by (simp add: processVoiceCommand_eq)
  from t p step_currentStep [of e w] step_trace [of w e] show ?thesis
    by (simp add: turnOptions_def)
qed

text \<open>The theorem at the first callback of the turn of the listening session.\<close>

theorem step_pointer_and_context_witness:
  "Transcribed 2 ''next please'' \<notin> {ClickNext, ClickPrevious, ClickNewRecipe, TimerFires}
   \<and> currentStep (step (Transcribed 2 ''next please'') in_turn) = currentStep in_turn
   \<and> pipelineRef heard \<and> c_recipe (render initial) = Some soup
   \<and> last (trace (processVoiceCommand (render initial) (silence 2000) heard))
       = ProcessTurn 2 (silence 2000) (turnOptions soup (render initial))
   \<and> prefix (trace in_turn) (trace (step (Transcribed 2 ''next please'') in_turn))"
proof -
  have a: "pipelineRef heard" "fresh heard = 2"
    by (simp_all add: heard_eq listening_eq)
  have b: "c_recipe (render initial) = Some soup"
    by (simp add: render_def initial_def)
  from step_pointer_and_context [of "Transcribed 2 ''next please''" in_turn
      "render initial" soup "silence 2000"]
    step_pointer_and_context [of "Transcribed 2 ''next please''" heard
      "render initial" soup "silence 2000"] a b
  show ?thesis by simp
qed

text \<open>C7 as stated fails: the timer that the final-reply callback sets fires while the
  turn is in flight (the synthesis and the playback come after the reply), and the
  step pointer goes from 0 to 1 while \<^verbatim>\<open>processTurn\<close> has not returned.\<close>

theorem step_pointer_and_context_counterexample:
  "currentStep in_turn = 0
   \<and> map fst (turns (run [Transcribed 2 ''next please'',
        ResponseComplete 2 ''Moving to the next step.'', TimerFires] in_turn)) = [2]
   \<and> currentStep (run [Transcribed 2 ''next please'',
        ResponseComplete 2 ''Moving to the next step.'', TimerFires] in_turn) = 1"
  by (simp add: run_def in_turn_eq listening_eq initial_def in_flight_def onTranscription_def
      onResponseComplete_def nav_moving nextStep_def render_def soup_def prims)

end
